theory Spec2Isabelle
  imports Complex_Main
begin

section \<open>Python values, exceptions and the storage backend\<close>

text \<open>
  The program is dynamically typed: whatever \<^verbatim>\<open>json.loads\<close> produces flows unchecked
  into the policy objects. Parsed JSON is therefore a datatype of Python values. A Python
  float is only ever compared with an integer here, and that comparison is exact, so a
  float is represented by its rational value or one of the three special values.
  A dictionary is an association list; \<^verbatim>\<open>json.loads\<close> yields distinct keys.
\<close>

datatype pyfloat = Finite rat | PosInf | NegInf | NaN

datatype pyval =
    PNone
  | PBool bool
  | PInt int
  | PFloat pyfloat
  | PStr string
  | PList "pyval list"
  | PDict "(string \<times> pyval) list"

text \<open>
  Exceptions as values. \<open>ClientError\<close> is botocore's exception for an error response of
  the service; \<open>OtherException\<close> stands for every other exception a library call can
  raise (connection failures, parameter validation, decoding errors). \<open>TypeError\<close> and
  \<open>KeyError\<close> are raised by the interpreter on ill-typed operations and missing keys.
\<close>

datatype exn =
    ClientError string
  | JSONDecodeError string
  | KeyError string
  | TypeError
  | OtherException string

text \<open>\<^verbatim>\<open>a < v\<close> and \<^verbatim>\<open>a > v\<close> for a Python int \<open>a\<close> and an arbitrary value \<open>v\<close>.\<close>

fun py_int_lt :: "int \<Rightarrow> pyval \<Rightarrow> exn + bool" where
  "py_int_lt a (PInt n) = Inr (a < n)"
| "py_int_lt a (PBool b) = Inr (a < (if b then 1 else 0))"
| "py_int_lt a (PFloat (Finite q)) = Inr (of_int a < q)"
| "py_int_lt a (PFloat PosInf) = Inr True"
| "py_int_lt a (PFloat NegInf) = Inr False"
| "py_int_lt a (PFloat NaN) = Inr False"
| "py_int_lt a PNone = Inl TypeError"
| "py_int_lt a (PStr s) = Inl TypeError"
| "py_int_lt a (PList xs) = Inl TypeError"
| "py_int_lt a (PDict kvs) = Inl TypeError"

fun py_int_gt :: "int \<Rightarrow> pyval \<Rightarrow> exn + bool" where
  "py_int_gt a (PInt n) = Inr (n < a)"
| "py_int_gt a (PBool b) = Inr ((if b then 1 else 0) < a)"
| "py_int_gt a (PFloat (Finite q)) = Inr (q < of_int a)"
| "py_int_gt a (PFloat PosInf) = Inr False"
| "py_int_gt a (PFloat NegInf) = Inr True"
| "py_int_gt a (PFloat NaN) = Inr False"
| "py_int_gt a PNone = Inl TypeError"
| "py_int_gt a (PStr s) = Inl TypeError"
| "py_int_gt a (PList xs) = Inl TypeError"
| "py_int_gt a (PDict kvs) = Inl TypeError"

text \<open>\<^verbatim>\<open>needle in s\<close> on strings is the substring test.\<close>

definition startswith :: "string \<Rightarrow> string \<Rightarrow> bool" where
  "startswith s p = (take (length p) s = p)"

fun str_contains :: "string \<Rightarrow> string \<Rightarrow> bool" where
  "str_contains needle [] = (needle = [])"
| "str_contains needle (c # cs) = (startswith (c # cs) needle \<or> str_contains needle cs)"

text \<open>\<^verbatim>\<open>key in v\<close>, \<^verbatim>\<open>v[key]\<close> and \<^verbatim>\<open>for x in v\<close> for a string key.\<close>

fun py_contains :: "string \<Rightarrow> pyval \<Rightarrow> exn + bool" where
  "py_contains k (PDict kvs) = Inr (k \<in> set (map fst kvs))"
| "py_contains k (PList xs) = Inr (PStr k \<in> set xs)"
| "py_contains k (PStr s) = Inr (str_contains k s)"
| "py_contains k PNone = Inl TypeError"
| "py_contains k (PBool b) = Inl TypeError"
| "py_contains k (PInt n) = Inl TypeError"
| "py_contains k (PFloat f) = Inl TypeError"

fun py_getitem :: "pyval \<Rightarrow> string \<Rightarrow> exn + pyval" where
  "py_getitem (PDict kvs) k = (case map_of kvs k of None \<Rightarrow> Inl (KeyError k) | Some v \<Rightarrow> Inr v)"
| "py_getitem PNone k = Inl TypeError"
| "py_getitem (PBool b) k = Inl TypeError"
| "py_getitem (PInt n) k = Inl TypeError"
| "py_getitem (PFloat f) k = Inl TypeError"
| "py_getitem (PStr s) k = Inl TypeError"
| "py_getitem (PList xs) k = Inl TypeError"

fun py_iter :: "pyval \<Rightarrow> exn + pyval list" where
  "py_iter (PList xs) = Inr xs"
| "py_iter (PDict kvs) = Inr (map (\<lambda>kv. PStr (fst kv)) kvs)"
| "py_iter (PStr s) = Inr (map (\<lambda>c. PStr [c]) s)"
| "py_iter PNone = Inl TypeError"
| "py_iter (PBool b) = Inl TypeError"
| "py_iter (PInt n) = Inl TypeError"
| "py_iter (PFloat f) = Inl TypeError"

definition dict_get :: "(string \<times> pyval) list \<Rightarrow> string \<Rightarrow> pyval \<Rightarrow> pyval" where
  "dict_get kvs k dflt = (case map_of kvs k of None \<Rightarrow> dflt | Some v \<Rightarrow> v)"

text \<open>
  A listed object: its key and its modification time, a timezone-aware datetime, held as
  microseconds since the epoch (the resolution of \<^verbatim>\<open>datetime\<close>).
\<close>

record backup_object =
  Key :: string
  LastModified :: int

record page =
  Contents :: "backup_object list option"

record delete_response =
  Deleted :: "string list option"
  Errors :: "(string \<times> string \<times> string) list option"

text \<open>
  Every call of the storage client is recorded in a trace. What the backend answers may
  depend on everything that was called before, so each backend operation takes the trace
  so far. \<^verbatim>\<open>json.loads\<close> and the clock are part of the world the program runs in.
\<close>

datatype s3_call =
    Paginate string pyval
  | DeleteObjectsCall string "string list"
  | GetObjectCall string string

type_synonym trace = "s3_call list"

record world =
  json_loads :: "string \<Rightarrow> exn + pyval"
  s3_paginate :: "trace \<Rightarrow> string \<Rightarrow> pyval \<Rightarrow> exn + page list"
  s3_delete_objects :: "trace \<Rightarrow> string \<Rightarrow> string list \<Rightarrow> exn + delete_response"
  s3_get_object :: "trace \<Rightarrow> string \<Rightarrow> string \<Rightarrow> exn + string"
  utcnow :: "trace \<Rightarrow> int"

section \<open>Retention policy and the retention evaluator\<close>

record BackupRetentionPolicy =
  folder :: pyval
  days_to_keep :: pyval
  min_backups_to_keep :: pyval

text \<open>\<^verbatim>\<open>timedelta.days\<close>: the difference in microseconds, floor-divided by one day.\<close>

definition timedelta_days :: "int \<Rightarrow> int" where
  "timedelta_days delta = delta div 86400000000"

definition age_days :: "int \<Rightarrow> backup_object \<Rightarrow> int" where
  "age_days now obj = timedelta_days (now - LastModified obj)"

text \<open>
  \<^verbatim>\<open>sorted(objects, key=lambda x: x['LastModified'], reverse=True)\<close>: a stable sort,
  newest first; objects with equal times keep their order in the input.
\<close>

definition sorted_objects :: "backup_object list \<Rightarrow> backup_object list" where
  "sorted_objects objects = sort_key (\<lambda>x. - LastModified x) objects"

text \<open>The loop over \<^verbatim>\<open>enumerate(sorted_objects)\<close>, with \<^verbatim>\<open>to_delete\<close> as accumulator.\<close>

fun mark_loop ::
  "BackupRetentionPolicy \<Rightarrow> int \<Rightarrow> nat \<Rightarrow> backup_object list \<Rightarrow> string list \<Rightarrow> exn + string list"
where
  "mark_loop policy now idx [] to_delete = Inr to_delete"
| "mark_loop policy now idx (obj # rest) to_delete =
     (case py_int_lt (int idx) (min_backups_to_keep policy) of
        Inl e \<Rightarrow> Inl e
      | Inr True \<Rightarrow> mark_loop policy now (Suc idx) rest to_delete
      | Inr False \<Rightarrow>
          (case py_int_gt (age_days now obj) (days_to_keep policy) of
             Inl e \<Rightarrow> Inl e
           | Inr True \<Rightarrow> mark_loop policy now (Suc idx) rest (to_delete @ [Key obj])
           | Inr False \<Rightarrow> mark_loop policy now (Suc idx) rest to_delete))"

definition get_objects_to_delete ::
  "backup_object list \<Rightarrow> BackupRetentionPolicy \<Rightarrow> int \<Rightarrow> exn + string list"
where
  "get_objects_to_delete objects policy now =
     (if objects = [] then Inr []
      else mark_loop policy now 0 (sorted_objects objects) [])"

section \<open>Listing and batched deletion\<close>

definition endswith_slash :: "string \<Rightarrow> bool" where
  "endswith_slash s = (s \<noteq> [] \<and> last s = CHR ''/'')"

definition page_objects :: "page \<Rightarrow> backup_object list" where
  "page_objects pg =
     (case Contents pg of
        None \<Rightarrow> []
      | Some objs \<Rightarrow> filter (\<lambda>obj. \<not> endswith_slash (Key obj)) objs)"

definition list_backup_objects ::
  "world \<Rightarrow> string \<Rightarrow> pyval \<Rightarrow> trace \<Rightarrow> (exn + backup_object list) \<times> trace"
where
  "list_backup_objects w bucket_name prefix tr =
     (case s3_paginate w tr bucket_name prefix of
        Inl e \<Rightarrow> (Inl e, tr @ [Paginate bucket_name prefix])
      | Inr pages \<Rightarrow> (Inr (concat (map page_objects pages)), tr @ [Paginate bucket_name prefix]))"

definition batch_size :: nat where
  "batch_size = 1000"

definition len_opt :: "'a list option \<Rightarrow> nat" where
  "len_opt field = (case field of None \<Rightarrow> 0 | Some xs \<Rightarrow> length xs)"

text \<open>
  The loop \<^verbatim>\<open>for i in range(0, len(keys), batch_size)\<close>. Only \<open>ClientError\<close> is caught;
  any other exception leaves the loop and the function.
\<close>

function delete_loop ::
  "world \<Rightarrow> string \<Rightarrow> string list \<Rightarrow> nat \<Rightarrow> trace \<Rightarrow> nat \<times> nat \<Rightarrow> (exn + nat \<times> nat) \<times> trace"
where
  "delete_loop w bucket_name keys i tr (successful, failed) =
     (if i < length keys then
        (case s3_delete_objects w tr bucket_name (take batch_size (drop i keys)) of
           Inr response \<Rightarrow>
             delete_loop w bucket_name keys (i + batch_size)
               (tr @ [DeleteObjectsCall bucket_name (take batch_size (drop i keys))])
               (successful + len_opt (Deleted response), failed + len_opt (Errors response))
         | Inl (ClientError msg) \<Rightarrow>
             delete_loop w bucket_name keys (i + batch_size)
               (tr @ [DeleteObjectsCall bucket_name (take batch_size (drop i keys))])
               (successful, failed + length (take batch_size (drop i keys)))
         | Inl e \<Rightarrow>
             (Inl e, tr @ [DeleteObjectsCall bucket_name (take batch_size (drop i keys))]))
      else (Inr (successful, failed), tr))"
  by pat_completeness auto
termination
  by (relation "measure (\<lambda>(w, b, keys, i, tr, c). length keys - i)")
     (auto simp: batch_size_def)

declare delete_loop.simps [simp del]

definition delete_objects ::
  "world \<Rightarrow> string \<Rightarrow> string list \<Rightarrow> trace \<Rightarrow> (exn + nat \<times> nat) \<times> trace"
where
  "delete_objects w bucket_name keys tr =
     (if keys = [] then (Inr (0, 0), tr)
      else delete_loop w bucket_name keys 0 tr (0, 0))"

section \<open>Folder processing\<close>

datatype folder_result =
    FolderResult pyval nat nat nat nat
  | FolderError pyval exn

text \<open>\<^verbatim>\<open>r['folder']\<close>, \<^verbatim>\<open>r.get('deleted', 0)\<close> and \<^verbatim>\<open>r.get('failed', 0)\<close>.\<close>

fun result_folder :: "folder_result \<Rightarrow> pyval" where
  "result_folder (FolderResult f n_total n_marked n_deleted n_failed) = f"
| "result_folder (FolderError f e) = f"

fun get_deleted :: "folder_result \<Rightarrow> nat" where
  "get_deleted (FolderResult f n_total n_marked n_deleted n_failed) = n_deleted"
| "get_deleted (FolderError f e) = 0"

fun get_failed :: "folder_result \<Rightarrow> nat" where
  "get_failed (FolderResult f n_total n_marked n_deleted n_failed) = n_failed"
| "get_failed (FolderError f e) = 0"

fun is_error_result :: "folder_result \<Rightarrow> bool" where
  "is_error_result (FolderResult f n_total n_marked n_deleted n_failed) = False"
| "is_error_result (FolderError f e) = True"

definition process_folder ::
  "world \<Rightarrow> string \<Rightarrow> BackupRetentionPolicy \<Rightarrow> trace \<Rightarrow> (exn + folder_result) \<times> trace"
where
  "process_folder w bucket_name policy tr =
     (case list_backup_objects w bucket_name (folder policy) tr of
        (Inl e, tr1) \<Rightarrow> (Inl e, tr1)
      | (Inr objects, tr1) \<Rightarrow>
          (case get_objects_to_delete objects policy (utcnow w tr1) of
             Inl e \<Rightarrow> (Inl e, tr1)
           | Inr to_delete \<Rightarrow>
               (case delete_objects w bucket_name to_delete tr1 of
                  (Inl e, tr2) \<Rightarrow> (Inl e, tr2)
                | (Inr (successful, failed), tr2) \<Rightarrow>
                    (Inr (FolderResult (folder policy) (length objects) (length to_delete)
                            successful failed), tr2))))"

section \<open>Configuration loading\<close>

text \<open>\<^verbatim>\<open>parts = rest.split('/', 1)\<close>, with the default key when there is no separator.\<close>

definition split_s3_path :: "string \<Rightarrow> string \<times> string" where
  "split_s3_path rest =
     (takeWhile (\<lambda>c. c \<noteq> CHR ''/'') rest,
      if CHR ''/'' \<in> set rest then tl (dropWhile (\<lambda>c. c \<noteq> CHR ''/'') rest)
      else ''config.json'')"

fun make_policy :: "pyval \<Rightarrow> exn + BackupRetentionPolicy" where
  "make_policy (PDict kvs) =
     (case map_of kvs ''folder'' of
        None \<Rightarrow> Inl (KeyError ''folder'')
      | Some f \<Rightarrow>
          Inr \<lparr>folder = f,
               days_to_keep = dict_get kvs ''days_to_keep'' (PInt 30),
               min_backups_to_keep = dict_get kvs ''min_backups_to_keep'' (PInt 3)\<rparr>)"
| "make_policy PNone = Inl TypeError"
| "make_policy (PBool b) = Inl TypeError"
| "make_policy (PInt n) = Inl TypeError"
| "make_policy (PFloat f) = Inl TypeError"
| "make_policy (PStr s) = Inl TypeError"
| "make_policy (PList xs) = Inl TypeError"

fun load_policies ::
  "pyval list \<Rightarrow> BackupRetentionPolicy list \<Rightarrow> exn + BackupRetentionPolicy list"
where
  "load_policies [] policies = Inr policies"
| "load_policies (policy_config # rest) policies =
     (case make_policy policy_config of
        Inl e \<Rightarrow> Inl e
      | Inr policy \<Rightarrow> load_policies rest (policies @ [policy]))"

definition parse_config :: "pyval \<Rightarrow> exn + BackupRetentionPolicy list" where
  "parse_config config_data =
     (case py_contains ''retention_policies'' config_data of
        Inl e \<Rightarrow> Inl e
      | Inr False \<Rightarrow> Inr []
      | Inr True \<Rightarrow>
          (case py_getitem config_data ''retention_policies'' of
             Inl e \<Rightarrow> Inl e
           | Inr v \<Rightarrow>
               (case py_iter v of
                  Inl e \<Rightarrow> Inl e
                | Inr items \<Rightarrow> load_policies items [])))"

text \<open>
  The first half of \<^verbatim>\<open>load_retention_config\<close>: the configuration document, fetched
  from storage when the source is an \<^verbatim>\<open>s3://\<close> path and parsed. Every exception
  propagates (the handlers only log and re-raise).
\<close>

definition read_config_data :: "world \<Rightarrow> string \<Rightarrow> trace \<Rightarrow> (exn + pyval) \<times> trace" where
  "read_config_data w config_source tr =
     (if startswith config_source ''s3://'' then
        (case split_s3_path (drop 5 config_source) of
           (bucket, key) \<Rightarrow>
             (case s3_get_object w tr bucket key of
                Inl e \<Rightarrow> (Inl e, tr @ [GetObjectCall bucket key])
              | Inr text \<Rightarrow> (json_loads w text, tr @ [GetObjectCall bucket key])))
      else (json_loads w config_source, tr))"

definition load_retention_config ::
  "world \<Rightarrow> string \<Rightarrow> trace \<Rightarrow> (exn + BackupRetentionPolicy list) \<times> trace"
where
  "load_retention_config w config_source tr =
     (case read_config_data w config_source tr of
        (Inl e, tr1) \<Rightarrow> (Inl e, tr1)
      | (Inr config_data, tr1) \<Rightarrow> (parse_config config_data, tr1))"

section \<open>The handler\<close>

record environ =
  BUCKET_NAME :: "string option"
  RETENTION_CONFIG :: "string option"

datatype body =
    ErrorBody string
  | NoPoliciesBody string "folder_result list"
  | CompletedBody string nat nat "folder_result list"
  | InternalErrorBody string exn

record response =
  statusCode :: nat
  body :: body

text \<open>The loop over the policies, with \<^verbatim>\<open>results\<close> as accumulator.\<close>

fun process_policies ::
  "world \<Rightarrow> string \<Rightarrow> BackupRetentionPolicy list \<Rightarrow> folder_result list \<Rightarrow> trace
     \<Rightarrow> folder_result list \<times> trace"
where
  "process_policies w bucket_name [] results tr = (results, tr)"
| "process_policies w bucket_name (policy # rest) results tr =
     (case process_folder w bucket_name policy tr of
        (Inr result, tr1) \<Rightarrow> process_policies w bucket_name rest (results @ [result]) tr1
      | (Inl e, tr1) \<Rightarrow>
          process_policies w bucket_name rest (results @ [FolderError (folder policy) e]) tr1)"

definition total_deleted :: "folder_result list \<Rightarrow> nat" where
  "total_deleted results = sum_list (map get_deleted results)"

definition total_failed :: "folder_result list \<Rightarrow> nat" where
  "total_failed results = sum_list (map get_failed results)"

definition config_error :: "string \<Rightarrow> response" where
  "config_error error_msg = \<lparr>statusCode = 400, body = ErrorBody error_msg\<rparr>"

text \<open>
  The event is the JSON value the Lambda runtime passes in; it is only logged.
  The run starts with an empty trace.
\<close>

definition run_policies :: "world \<Rightarrow> string \<Rightarrow> string \<Rightarrow> response \<times> trace" where
  "run_policies w bucket_name retention_config =
     (case load_retention_config w retention_config [] of
        (Inl e, tr) \<Rightarrow>
          (\<lparr>statusCode = 500, body = InternalErrorBody ''Internal server error'' e\<rparr>, tr)
      | (Inr policies, tr) \<Rightarrow>
          if policies = [] then
            (\<lparr>statusCode = 200, body = NoPoliciesBody ''No retention policies configured'' []\<rparr>, tr)
          else
            (case process_policies w bucket_name policies [] tr of
               (results, tr') \<Rightarrow>
                 (\<lparr>statusCode = 200,
                   body = CompletedBody ''Backup cleanup completed''
                            (total_deleted results) (total_failed results) results\<rparr>, tr')))"

definition lambda_handler :: "world \<Rightarrow> environ \<Rightarrow> pyval \<Rightarrow> response \<times> trace" where
  "lambda_handler w env event =
     (case BUCKET_NAME env of
        None \<Rightarrow> (config_error ''BUCKET_NAME environment variable is required'', [])
      | Some bucket_name \<Rightarrow>
          if bucket_name = [] then
            (config_error ''BUCKET_NAME environment variable is required'', [])
          else
            (case RETENTION_CONFIG env of
               None \<Rightarrow> (config_error ''RETENTION_CONFIG environment variable is required'', [])
             | Some retention_config \<Rightarrow>
                 if retention_config = [] then
                   (config_error ''RETENTION_CONFIG environment variable is required'', [])
                 else run_policies w bucket_name retention_config))"

section \<open>Vocabulary of the properties\<close>

fun is_client_error :: "exn \<Rightarrow> bool" where
  "is_client_error (ClientError msg) = True"
| "is_client_error (JSONDecodeError msg) = False"
| "is_client_error (KeyError k) = False"
| "is_client_error TypeError = False"
| "is_client_error (OtherException msg) = False"

text \<open>
  The outcome of one deletion call acknowledges its batch when the call is rejected as a
  whole by the service, or the response reports every key of the batch once, as deleted
  or as an error.
\<close>

definition acknowledges :: "exn + delete_response \<Rightarrow> string list \<Rightarrow> bool" where
  "acknowledges outcome batch =
     (case outcome of
        Inr response \<Rightarrow> len_opt (Deleted response) + len_opt (Errors response) = length batch
      | Inl e \<Rightarrow> is_client_error e)"

text \<open>
  The batch deleter as the specification words it: the keys are cut into consecutive chunks
  of at most \<open>batch_size\<close> keys, one call is issued per chunk, a response adds the
  number of keys it reports deleted and the number it reports failed, and a rejected call
  counts its whole chunk as failed.
\<close>

definition chunk :: "string list \<Rightarrow> nat \<Rightarrow> string list" where
  "chunk keys j = take batch_size (drop (j * batch_size) keys)"

definition n_chunks :: "string list \<Rightarrow> nat" where
  "n_chunks keys = (length keys + batch_size - 1) div batch_size"

definition calls_before :: "string \<Rightarrow> string list \<Rightarrow> nat \<Rightarrow> trace" where
  "calls_before b keys j = map (\<lambda>k. DeleteObjectsCall b (chunk keys k)) [0..<j]"

definition chunk_counts :: "world \<Rightarrow> string \<Rightarrow> trace \<Rightarrow> string list \<Rightarrow> nat \<Rightarrow> nat \<times> nat" where
  "chunk_counts w b tr keys j =
     (case s3_delete_objects w (tr @ calls_before b keys j) b (chunk keys j) of
        Inr response \<Rightarrow> (len_opt (Deleted response), len_opt (Errors response))
      | Inl e \<Rightarrow> (0, length (chunk keys j)))"

fun is_paginate :: "s3_call \<Rightarrow> bool" where
  "is_paginate (Paginate b prefix) = True"
| "is_paginate (DeleteObjectsCall b ks) = False"
| "is_paginate (GetObjectCall b k) = False"

fun is_get_object :: "s3_call \<Rightarrow> bool" where
  "is_get_object (Paginate b prefix) = False"
| "is_get_object (DeleteObjectsCall b ks) = False"
| "is_get_object (GetObjectCall b k) = True"

section \<open>Concrete inputs\<close>

text \<open>
  Five backups aged 20, 40, 5, 35 and 10 days at \<open>example_now\<close> (day 100), in listing
  order, and three backups that are all 60 days old.
\<close>

definition example_now :: int where
  "example_now = 8640000000000"

definition example_objects :: "backup_object list" where
  "example_objects =
     [\<lparr>Key = ''backup-3.zip'', LastModified = 6912000000000\<rparr>,
      \<lparr>Key = ''backup-5.zip'', LastModified = 5184000000000\<rparr>,
      \<lparr>Key = ''backup-1.zip'', LastModified = 8208000000000\<rparr>,
      \<lparr>Key = ''backup-4.zip'', LastModified = 5616000000000\<rparr>,
      \<lparr>Key = ''backup-2.zip'', LastModified = 7776000000000\<rparr>]"

definition old_objects :: "backup_object list" where
  "old_objects =
     [\<lparr>Key = ''backup-0.zip'', LastModified = 3456000000000\<rparr>,
      \<lparr>Key = ''backup-1.zip'', LastModified = 3456000000000\<rparr>,
      \<lparr>Key = ''backup-2.zip'', LastModified = 3456000000000\<rparr>]"

definition example_policy :: "int \<Rightarrow> int \<Rightarrow> BackupRetentionPolicy" where
  "example_policy days n =
     \<lparr>folder = PStr ''test/'', days_to_keep = PInt days, min_backups_to_keep = PInt n\<rparr>"

text \<open>
  A world for concrete runs. Its \<^verbatim>\<open>json.loads\<close> knows the four documents below and
  rejects every other text. Listing \<^verbatim>\<open>broken/\<close> is denied; \<^verbatim>\<open>test/\<close> holds the five
  example backups and its folder marker, on three pages. A deletion call with a full batch
  is rejected as a whole; otherwise the last key of the batch is reported as an error and
  the others as deleted. The stored configuration object is malformed.
\<close>

definition malformed_config :: string where
  \<open>malformed_config = ''{''\<close>

definition empty_config :: string where
  \<open>empty_config = ''{}''\<close>

definition missing_folder_config :: string where
  \<open>missing_folder_config = ''{"retention_policies": [{"days_to_keep": 30}]}''\<close>

definition two_folder_config :: string where
  \<open>two_folder_config =
     ''{"retention_policies": [{"folder": "broken/"}, {"folder": "test/", "days_to_keep": 30, "min_backups_to_keep": 2}]}''\<close>

definition example_json_loads :: "string \<Rightarrow> exn + pyval" where
  "example_json_loads text =
     (if text = empty_config then Inr (PDict [])
      else if text = missing_folder_config then
        Inr (PDict [(''retention_policies'', PList [PDict [(''days_to_keep'', PInt 30)]])])
      else if text = two_folder_config then
        Inr (PDict [(''retention_policies'',
               PList [PDict [(''folder'', PStr ''broken/'')],
                      PDict [(''folder'', PStr ''test/''), (''days_to_keep'', PInt 30),
                             (''min_backups_to_keep'', PInt 2)]])])
      else Inl (JSONDecodeError ''Expecting property name enclosed in double quotes''))"

definition example_paginate :: "trace \<Rightarrow> string \<Rightarrow> pyval \<Rightarrow> exn + page list" where
  "example_paginate tr bucket prefix =
     (if prefix = PStr ''broken/'' then Inl (ClientError ''AccessDenied'')
      else if prefix = PStr ''test/'' then
        Inr [\<lparr>Contents = Some (\<lparr>Key = ''test/'', LastModified = 0\<rparr> # take 2 example_objects)\<rparr>,
             \<lparr>Contents = None\<rparr>,
             \<lparr>Contents = Some (drop 2 example_objects)\<rparr>]
      else Inr [\<lparr>Contents = None\<rparr>])"

definition example_delete_objects ::
  "trace \<Rightarrow> string \<Rightarrow> string list \<Rightarrow> exn + delete_response"
where
  "example_delete_objects tr bucket batch =
     (if length batch = batch_size then Inl (ClientError ''SlowDown'')
      else Inr \<lparr>Deleted = Some (butlast batch),
                Errors = Some (map (\<lambda>k. (k, ''AccessDenied'', ''Access Denied''))
                                (drop (length batch - 1) batch))\<rparr>)"

definition example_get_object :: "trace \<Rightarrow> string \<Rightarrow> string \<Rightarrow> exn + string" where
  "example_get_object tr bucket key =
     (if bucket = ''config-bucket'' \<and> key = ''config.json'' then Inr malformed_config
      else if bucket = ''config-bucket'' \<and> key = ''empty.json'' then Inr empty_config
      else Inl (ClientError ''NoSuchKey''))"

definition example_world :: world where
  "example_world =
     \<lparr>json_loads = example_json_loads,
      s3_paginate = example_paginate,
      s3_delete_objects = example_delete_objects,
      s3_get_object = example_get_object,
      utcnow = (\<lambda>tr. example_now)\<rparr>"

definition example_env :: "string \<Rightarrow> string \<Rightarrow> environ" where
  "example_env bucket_name retention_config =
     \<lparr>BUCKET_NAME = Some bucket_name, RETENTION_CONFIG = Some retention_config\<rparr>"

text \<open>One thousand and two distinct keys: a full batch and a batch of two.\<close>

definition many_keys :: "string list" where
  "many_keys = map (\<lambda>n. replicate n (CHR ''k'')) [1..<1003]"

text \<open>
  Two worlds whose deletion call fails without an error response of the service: in
  \<open>unreachable_world\<close> every call fails to connect; in \<open>flaky_world\<close> a full batch is
  rejected by the service and any other batch loses its connection.
\<close>

definition unreachable_world :: world where
  "unreachable_world =
     example_world\<lparr>s3_delete_objects :=
       (\<lambda>tr bucket batch. Inl (OtherException ''EndpointConnectionError''))\<rparr>"

definition flaky_world :: world where
  "flaky_world =
     example_world\<lparr>s3_delete_objects :=
       (\<lambda>tr bucket batch.
          if length batch = batch_size then Inl (ClientError ''SlowDown'')
          else Inl (OtherException ''ConnectionClosedError''))\<rparr>"

section \<open>The retention evaluator: properties\<close>

lemma mark_loop_int:
  assumes "min_backups_to_keep policy = PInt m" and "days_to_keep policy = PInt d"
  shows "mark_loop policy now idx objs acc =
    Inr (acc @ map Key (filter (\<lambda>ob. d < age_days now ob) (drop (nat m - idx) objs)))"
proof (induction objs arbitrary: idx acc)
  case Nil
  then show ?case by simp
next
  case (Cons ob rest)
  show ?case
  proof (cases "int idx < m")
    case True
    then have "nat m - idx = Suc (nat m - Suc idx)" by linarith
    with True Cons assms show ?thesis by simp
  next
    case False
    then have "nat m - idx = 0" "nat m - Suc idx = 0" by linarith+
    with False Cons assms show ?thesis by simp
  qed
qed

lemma get_objects_to_delete_int:
  assumes "min_backups_to_keep policy = PInt m" and "days_to_keep policy = PInt d"
  shows "get_objects_to_delete objects policy now =
    Inr (map Key (filter (\<lambda>ob. d < age_days now ob) (drop (nat m) (sorted_objects objects))))"
  using mark_loop_int [OF assms, of now 0 "sorted_objects objects" "[]"]
  by (simp add: get_objects_to_delete_def sorted_objects_def)

lemma sorted_objects_newest_first:
  "sorted_wrt (\<lambda>a b. LastModified b \<le> LastModified a) (sorted_objects objects)"
proof -
  have "sorted (map (\<lambda>x. - LastModified x) (sorted_objects objects))"
    unfolding sorted_objects_def by (rule sorted_sort_key)
  then show ?thesis by (simp add: sorted_map sorted_wrt_iff_nth_less)
qed

lemma take_drop_newest:
  assumes "a \<in> set (take k (sorted_objects objects))" "b \<in> set (drop k (sorted_objects objects))"
  shows "LastModified b \<le> LastModified a"
proof -
  have "sorted_wrt (\<lambda>a b. LastModified b \<le> LastModified a)
          (take k (sorted_objects objects) @ drop k (sorted_objects objects))"
    using sorted_objects_newest_first by simp
  then show ?thesis using assms unfolding sorted_wrt_append by blast
qed

lemma distinct_map_insort_key:
  "distinct (map g (insort_key f x xs)) = (g x \<notin> g ` set xs \<and> distinct (map g xs))"
  by (induction xs) (auto simp: set_insort_key)

lemma distinct_keys_sorted:
  "distinct (map Key (sorted_objects objects)) = distinct (map Key objects)"
  unfolding sorted_objects_def
  by (induction objects) (simp_all add: distinct_map_insort_key)

lemma length_sorted_objects: "length (sorted_objects objects) = length objects"
  by (simp add: sorted_objects_def)

lemma set_sorted_objects: "set (sorted_objects objects) = set objects"
  by (simp add: sorted_objects_def)

lemma distinct_take_drop_keys:
  assumes "distinct (map Key xs)" "a \<in> set (take k xs)" "b \<in> set (drop k xs)"
  shows "Key a \<noteq> Key b"
proof -
  have "distinct (map Key (take k xs) @ map Key (drop k xs))"
    using assms(1) by (simp flip: map_append)
  then have "set (map Key (take k xs)) \<inter> set (map Key (drop k xs)) = {}"
    by (simp only: distinct_append)
  then show ?thesis using assms(2,3) by auto
qed

text \<open>
  C1. For every list of objects and every policy with integer thresholds, the evaluator
  returns a key list, and none of the \<open>min(min_backups_to_keep, N)\<close> most recently
  modified objects is marked: the first \<open>nat m\<close> objects of the sorted list are at
  least as recent as all the others and there are \<open>min(m, N)\<close> of them; every marked
  key belongs to an object behind them; when keys are distinct (as they are in a bucket)
  no key of a retained object is in the result; and when \<open>m \<ge> N\<close> the result is empty.
\<close>

theorem retained_minimum_never_marked:
  assumes "min_backups_to_keep policy = PInt m" and "days_to_keep policy = PInt d"
  shows "\<exists>ks. get_objects_to_delete objects policy now = Inr ks
    \<and> (\<forall>a \<in> set (take (nat m) (sorted_objects objects)).
         \<forall>b \<in> set (drop (nat m) (sorted_objects objects)). LastModified b \<le> LastModified a)
    \<and> length (take (nat m) (sorted_objects objects)) = nat (min m (int (length objects)))
    \<and> set ks \<subseteq> Key ` set (drop (nat m) (sorted_objects objects))
    \<and> (distinct (map Key objects) \<longrightarrow>
         (\<forall>a \<in> set (take (nat m) (sorted_objects objects)). Key a \<notin> set ks))
    \<and> (int (length objects) \<le> m \<longrightarrow> ks = [])"
proof -
  let ?ks = "map Key (filter (\<lambda>ob. d < age_days now ob) (drop (nat m) (sorted_objects objects)))"
  have r: "get_objects_to_delete objects policy now = Inr ?ks"
    by (rule get_objects_to_delete_int [OF assms])
  have sub: "set ?ks \<subseteq> Key ` set (drop (nat m) (sorted_objects objects))"
    by auto
  have newest: "\<forall>a \<in> set (take (nat m) (sorted_objects objects)).
         \<forall>b \<in> set (drop (nat m) (sorted_objects objects)). LastModified b \<le> LastModified a"
    using take_drop_newest by blast
  have len: "length (take (nat m) (sorted_objects objects)) = nat (min m (int (length objects)))"
    by (simp add: length_sorted_objects)
  have dis: "distinct (map Key objects) \<longrightarrow>
         (\<forall>a \<in> set (take (nat m) (sorted_objects objects)). Key a \<notin> set ?ks)"
  proof (intro impI ballI notI)
    fix a assume d: "distinct (map Key objects)"
      and a: "a \<in> set (take (nat m) (sorted_objects objects))" and k: "Key a \<in> set ?ks"
    from k sub obtain b where b: "b \<in> set (drop (nat m) (sorted_objects objects))" "Key a = Key b"
      by auto
    from d have "distinct (map Key (sorted_objects objects))" by (simp add: distinct_keys_sorted)
    from distinct_take_drop_keys [OF this a b(1)] b(2) show False by simp
  qed
  have emp: "int (length objects) \<le> m \<longrightarrow> ?ks = []"
    by (simp add: length_sorted_objects)
  from r sub newest len dis emp show ?thesis by blast
qed

theorem retained_minimum_never_marked_witness:
  "min_backups_to_keep (example_policy 30 2) = PInt 2
   \<and> days_to_keep (example_policy 30 2) = PInt 30
   \<and> distinct (map Key example_objects)
   \<and> (\<exists>ks. get_objects_to_delete example_objects (example_policy 30 2) example_now = Inr ks
         \<and> ''backup-1.zip'' \<notin> set ks \<and> ''backup-2.zip'' \<notin> set ks)
   \<and> int (length old_objects) \<le> 3
   \<and> get_objects_to_delete old_objects (example_policy 30 3) example_now = Inr []"
proof -
  have p: "min_backups_to_keep (example_policy 30 2) = PInt 2"
          "days_to_keep (example_policy 30 2) = PInt 30"
    by (simp_all add: example_policy_def)
  have q: "min_backups_to_keep (example_policy 30 3) = PInt 3"
          "days_to_keep (example_policy 30 3) = PInt 30"
    by (simp_all add: example_policy_def)
  have len: "int (length old_objects) \<le> 3" by (simp add: old_objects_def)
  have d: "distinct (map Key example_objects)" by (simp add: example_objects_def)
  have tk: "take (nat 2) (sorted_objects example_objects) =
     [\<lparr>Key = ''backup-1.zip'', LastModified = 8208000000000\<rparr>,
      \<lparr>Key = ''backup-2.zip'', LastModified = 7776000000000\<rparr>]"
    by (simp add: sorted_objects_def example_objects_def)
  from retained_minimum_never_marked [OF q, of old_objects example_now] len
  have old: "get_objects_to_delete old_objects (example_policy 30 3) example_now = Inr []"
    by auto
  from retained_minimum_never_marked [OF p, of example_objects example_now] d
  obtain ks where ks: "get_objects_to_delete example_objects (example_policy 30 2) example_now = Inr ks"
    "\<forall>a \<in> set (take (nat 2) (sorted_objects example_objects)). Key a \<notin> set ks"
    by blast
  from ks(2) have "''backup-1.zip'' \<notin> set ks \<and> ''backup-2.zip'' \<notin> set ks"
    unfolding tk by simp
  with ks(1) p d len old show ?thesis by blast
qed

lemma floor_div_bounds:
  fixes k :: int
  assumes "0 < k"
  shows "delta div k * k \<le> delta \<and> delta < (delta div k + 1) * k"
proof -
  have e: "delta div k * k + delta mod k = delta" by simp
  have b: "0 \<le> delta mod k" "delta mod k < k" using assms by simp_all
  have "(delta div k + 1) * k = delta div k * k + k" by (simp add: algebra_simps)
  with e b show ?thesis by linarith
qed

lemma age_days_whole:
  "age_days now ob * 86400000000 \<le> now - LastModified ob
   \<and> now - LastModified ob < (age_days now ob + 1) * 86400000000"
  unfolding age_days_def timedelta_days_def
  by (rule floor_div_bounds) simp

text \<open>
  C2. Beyond the retained minimum the result is exactly the keys of the objects whose age
  in whole days exceeds \<open>days_to_keep\<close>, in sorted order. For an object at sorted position
  \<open>idx \<ge> min_backups_to_keep\<close> of a listing with distinct keys: its key is marked iff
  \<open>age_days > days_to_keep\<close>, and on the boundary \<open>age_days = days_to_keep\<close> it is retained.
  The age is the number of whole 24-hour days in \<open>now - last_modified\<close>, whatever the
  calendar dates are.
\<close>

theorem beyond_minimum_deleted_iff_older:
  assumes "min_backups_to_keep policy = PInt m" and "days_to_keep policy = PInt d"
    and "distinct (map Key objects)"
    and "m \<le> int idx" and "idx < length objects"
  shows "\<exists>ks. get_objects_to_delete objects policy now = Inr ks
    \<and> ks = map Key (filter (\<lambda>ob. d < age_days now ob) (drop (nat m) (sorted_objects objects)))
    \<and> (Key (sorted_objects objects ! idx) \<in> set ks
           \<longleftrightarrow> d < age_days now (sorted_objects objects ! idx))
    \<and> (age_days now (sorted_objects objects ! idx) = d
           \<longrightarrow> Key (sorted_objects objects ! idx) \<notin> set ks)
    \<and> age_days now (sorted_objects objects ! idx) * 86400000000
          \<le> now - LastModified (sorted_objects objects ! idx)
    \<and> now - LastModified (sorted_objects objects ! idx)
          < (age_days now (sorted_objects objects ! idx) + 1) * 86400000000"
proof -
  let ?s = "sorted_objects objects"
  let ?ks = "map Key (filter (\<lambda>ob. d < age_days now ob) (drop (nat m) ?s))"
  have r: "get_objects_to_delete objects policy now = Inr ?ks"
    by (rule get_objects_to_delete_int [OF assms(1,2)])
  have len: "length ?s = length objects" by (rule length_sorted_objects)
  have dk: "distinct (map Key ?s)" using assms(3) by (simp add: distinct_keys_sorted)
  have le: "nat m \<le> idx" using assms(4) by linarith
  have mem: "?s ! idx \<in> set (drop (nat m) ?s)"
  proof -
    have "drop (nat m) ?s ! (idx - nat m) = ?s ! idx"
      using le assms(5) len by simp
    moreover have "idx - nat m < length (drop (nat m) ?s)"
      using le assms(5) len by simp
    ultimately show ?thesis by (metis nth_mem)
  qed
  have iff: "Key (?s ! idx) \<in> set ?ks \<longleftrightarrow> d < age_days now (?s ! idx)"
  proof
    assume "Key (?s ! idx) \<in> set ?ks"
    then obtain b where b: "b \<in> set (drop (nat m) ?s)" "d < age_days now b" "Key b = Key (?s ! idx)"
      by auto
    have "b \<in> set ?s" using b(1) by (rule in_set_dropD)
    moreover have "?s ! idx \<in> set ?s" using assms(5) len by simp
    ultimately have "b = ?s ! idx" using dk b(3) by (meson distinct_map inj_onD)
    with b(2) show "d < age_days now (?s ! idx)" by simp
  next
    assume "d < age_days now (?s ! idx)"
    with mem show "Key (?s ! idx) \<in> set ?ks" by auto
  qed
  from r iff age_days_whole [of now "?s ! idx"] show ?thesis by auto
qed

theorem beyond_minimum_deleted_iff_older_witness:
  "distinct (map Key example_objects)
   \<and> (2::int) \<le> int 3 \<and> 3 < length example_objects
   \<and> age_days example_now (sorted_objects example_objects ! 3) = 35
   \<and> (\<exists>ks. get_objects_to_delete example_objects (example_policy 30 2) example_now = Inr ks
         \<and> Key (sorted_objects example_objects ! 3) \<in> set ks)
   \<and> (2::int) \<le> int 2 \<and> 2 < length example_objects
   \<and> age_days example_now (sorted_objects example_objects ! 2) = 20
   \<and> (\<exists>ks. get_objects_to_delete example_objects (example_policy 20 2) example_now = Inr ks
         \<and> Key (sorted_objects example_objects ! 2) \<notin> set ks)"
proof -
  have p: "min_backups_to_keep (example_policy 30 2) = PInt 2"
          "days_to_keep (example_policy 30 2) = PInt 30"
    by (simp_all add: example_policy_def)
  have q: "min_backups_to_keep (example_policy 20 2) = PInt 2"
          "days_to_keep (example_policy 20 2) = PInt 20"
    by (simp_all add: example_policy_def)
  have d: "distinct (map Key example_objects)" by (simp add: example_objects_def)
  have i3: "(2::int) \<le> int 3" "3 < length example_objects"
    by (simp_all add: example_objects_def)
  have i2: "(2::int) \<le> int 2" "2 < length example_objects"
    by (simp_all add: example_objects_def)
  have a3: "age_days example_now (sorted_objects example_objects ! 3) = 35"
    by (simp add: sorted_objects_def example_objects_def example_now_def age_days_def
        timedelta_days_def)
  have a2: "age_days example_now (sorted_objects example_objects ! 2) = 20"
    by (simp add: sorted_objects_def example_objects_def example_now_def age_days_def
        timedelta_days_def)
  from beyond_minimum_deleted_iff_older [OF p d i3, of example_now] a3
  have r3: "\<exists>ks. get_objects_to_delete example_objects (example_policy 30 2) example_now = Inr ks
         \<and> Key (sorted_objects example_objects ! 3) \<in> set ks"
    by auto
  from beyond_minimum_deleted_iff_older [OF q d i2, of example_now] a2
  have r2: "\<exists>ks. get_objects_to_delete example_objects (example_policy 20 2) example_now = Inr ks
         \<and> Key (sorted_objects example_objects ! 2) \<notin> set ks"
    by auto
  from d i3 i2 a3 a2 r3 r2 show ?thesis by blast
qed

text \<open>
  C10. Every key returned by the evaluator is the key of an input object, and at most
  \<open>max(0, N - min_backups_to_keep)\<close> keys are returned.
\<close>

theorem marked_keys_from_input_and_bounded:
  assumes "min_backups_to_keep policy = PInt m" and "days_to_keep policy = PInt d"
  shows "\<exists>ks. get_objects_to_delete objects policy now = Inr ks
    \<and> set ks \<subseteq> Key ` set objects
    \<and> int (length ks) \<le> max 0 (int (length objects) - m)"
proof -
  let ?s = "sorted_objects objects"
  let ?ks = "map Key (filter (\<lambda>ob. d < age_days now ob) (drop (nat m) ?s))"
  have r: "get_objects_to_delete objects policy now = Inr ?ks"
    by (rule get_objects_to_delete_int [OF assms])
  have "set ?ks \<subseteq> Key ` set ?s" by (auto dest: in_set_dropD)
  then have sub: "set ?ks \<subseteq> Key ` set objects" by (simp add: set_sorted_objects)
  have "length ?ks \<le> length (drop (nat m) ?s)"
    using length_filter_le [of "\<lambda>ob. d < age_days now ob" "drop (nat m) ?s"]
    by (simp only: length_map)
  then have "length ?ks \<le> length objects - nat m" by (simp add: length_sorted_objects)
  then have bound: "int (length ?ks) \<le> max 0 (int (length objects) - m)" by linarith
  from r sub bound show ?thesis by blast
qed

theorem marked_keys_from_input_and_bounded_witness:
  "min_backups_to_keep (example_policy 30 2) = PInt 2
   \<and> days_to_keep (example_policy 30 2) = PInt 30
   \<and> (\<exists>ks. get_objects_to_delete example_objects (example_policy 30 2) example_now = Inr ks
         \<and> set ks \<subseteq> Key ` set example_objects \<and> int (length ks) \<le> 3)"
proof -
  have p: "min_backups_to_keep (example_policy 30 2) = PInt 2"
          "days_to_keep (example_policy 30 2) = PInt 30"
    by (simp_all add: example_policy_def)
  have n: "max 0 (int (length example_objects) - 2) = 3"
    by (simp add: example_objects_def)
  from marked_keys_from_input_and_bounded [OF p, of example_objects example_now] p
  show ?thesis unfolding n by blast
qed

section \<open>Batched deletion: properties\<close>

lemma delete_loop_done:
  "\<not> i < length keys \<Longrightarrow> delete_loop w b keys i tr (s, f) = (Inr (s, f), tr)"
  by (simp add: delete_loop.simps)

lemma delete_loop_response:
  "i < length keys \<Longrightarrow> s3_delete_objects w tr b (take batch_size (drop i keys)) = Inr r \<Longrightarrow>
   delete_loop w b keys i tr (s, f) =
     delete_loop w b keys (i + batch_size)
       (tr @ [DeleteObjectsCall b (take batch_size (drop i keys))])
       (s + len_opt (Deleted r), f + len_opt (Errors r))"
  by (simp add: delete_loop.simps)

lemma delete_loop_client_error:
  "i < length keys \<Longrightarrow>
   s3_delete_objects w tr b (take batch_size (drop i keys)) = Inl (ClientError msg) \<Longrightarrow>
   delete_loop w b keys i tr (s, f) =
     delete_loop w b keys (i + batch_size)
       (tr @ [DeleteObjectsCall b (take batch_size (drop i keys))])
       (s, f + length (take batch_size (drop i keys)))"
  by (simp add: delete_loop.simps)

lemma delete_loop_raise:
  "i < length keys \<Longrightarrow>
   s3_delete_objects w tr b (take batch_size (drop i keys)) = Inl e \<Longrightarrow> \<not> is_client_error e \<Longrightarrow>
   delete_loop w b keys i tr (s, f) =
     (Inl e, tr @ [DeleteObjectsCall b (take batch_size (drop i keys))])"
  by (cases e) (simp_all add: delete_loop.simps)

lemma batch_bounds:
  "i < length keys \<Longrightarrow> take batch_size (drop i keys) \<noteq> []
     \<and> length (take batch_size (drop i keys)) \<le> batch_size"
  by (simp add: batch_size_def)

lemma length_batch:
  "length (take batch_size (drop i keys)) + (length keys - (i + batch_size)) = length keys - i"
  by (simp add: min_def)

lemma delete_loop_sum:
  assumes ack: "\<forall>t batch. batch \<noteq> [] \<and> length batch \<le> batch_size
                  \<longrightarrow> acknowledges (s3_delete_objects w t b batch) batch"
  shows "\<exists>s' f' tr'. delete_loop w b keys i tr (s, f) = (Inr (s', f'), tr')
           \<and> s' + f' = s + f + (length keys - i)"
proof (induction "length keys - i" arbitrary: i tr s f rule: less_induct)
  case less
  show ?case
  proof (cases "i < length keys")
    case False
    then show ?thesis by (simp add: delete_loop_done)
  next
    case True
    let ?batch = "take batch_size (drop i keys)"
    let ?tr = "tr @ [DeleteObjectsCall b ?batch]"
    have dec: "length keys - (i + batch_size) < length keys - i"
      using True by (simp add: batch_size_def)
    have a: "acknowledges (s3_delete_objects w tr b ?batch) ?batch"
      using ack batch_bounds [OF True] by blast
    show ?thesis
    proof (cases "s3_delete_objects w tr b ?batch")
      case (Inr r)
      with a have n: "len_opt (Deleted r) + len_opt (Errors r) = length ?batch"
        by (simp add: acknowledges_def)
      from less [OF dec, of ?tr "s + len_opt (Deleted r)" "f + len_opt (Errors r)"]
      obtain s' f' tr' where
        r: "delete_loop w b keys (i + batch_size) ?tr (s + len_opt (Deleted r), f + len_opt (Errors r))
              = (Inr (s', f'), tr')"
        and e: "s' + f' = s + len_opt (Deleted r) + (f + len_opt (Errors r))
              + (length keys - (i + batch_size))"
        by blast
      from e n length_batch [of i keys] have "s' + f' = s + f + (length keys - i)"
        by linarith
      with r delete_loop_response [OF True Inr] show ?thesis by simp
    next
      case (Inl e)
      with a obtain msg where m: "e = ClientError msg"
        by (cases e) (simp_all add: acknowledges_def)
      from less [OF dec, of ?tr s "f + length ?batch"]
      obtain s' f' tr' where
        r: "delete_loop w b keys (i + batch_size) ?tr (s, f + length ?batch) = (Inr (s', f'), tr')"
        and e: "s' + f' = s + (f + length ?batch) + (length keys - (i + batch_size))"
        by blast
      from e length_batch [of i keys] have "s' + f' = s + f + (length keys - i)"
        by linarith
      with r delete_loop_client_error [OF True, of w tr b msg] Inl m show ?thesis by simp
    qed
  qed
qed

lemma div_ceiling_less:
  fixes B :: nat
  assumes "0 < B"
  shows "j < (L + B - 1) div B \<longleftrightarrow> j * B < L"
proof -
  have "j < (L + B - 1) div B \<longleftrightarrow> Suc j \<le> (L + B - 1) div B" by auto
  also have "\<dots> \<longleftrightarrow> Suc j * B \<le> L + B - 1"
    using assms by (simp only: less_eq_div_iff_mult_less_eq)
  also have "\<dots> \<longleftrightarrow> j * B < L" using assms by auto
  finally show ?thesis .
qed

lemma chunk_exists: "j < n_chunks keys \<longleftrightarrow> j * batch_size < length keys"
  unfolding n_chunks_def by (rule div_ceiling_less) (simp add: batch_size_def)

lemma calls_before_Suc:
  "calls_before b keys (Suc j) = calls_before b keys j @ [DeleteObjectsCall b (chunk keys j)]"
  by (simp add: calls_before_def)

lemma delete_loop_chunks:
  assumes H: "\<forall>t batch e. s3_delete_objects w t b batch = Inl e \<longrightarrow> is_client_error e"
  shows "j \<le> n_chunks keys \<Longrightarrow>
    delete_loop w b keys (j * batch_size) (tr @ calls_before b keys j) (s, f) =
      (Inr (s + sum_list (map (\<lambda>k. fst (chunk_counts w b tr keys k)) [j..<n_chunks keys]),
            f + sum_list (map (\<lambda>k. snd (chunk_counts w b tr keys k)) [j..<n_chunks keys])),
       tr @ calls_before b keys (n_chunks keys))"
proof (induction "n_chunks keys - j" arbitrary: j s f)
  case 0
  then have j: "j = n_chunks keys" by simp
  then have "\<not> j * batch_size < length keys" using chunk_exists [of j keys] by simp
  then show ?case using j by (simp add: delete_loop_done)
next
  case (Suc d)
  then have lt: "j < n_chunks keys" by simp
  then have i: "j * batch_size < length keys" by (simp add: chunk_exists)
  have upt: "[j..<n_chunks keys] = j # [Suc j..<n_chunks keys]"
    using lt by (simp add: upt_conv_Cons)
  have d: "d = n_chunks keys - Suc j" using Suc(2) by simp
  have le: "Suc j \<le> n_chunks keys" using lt by simp
  let ?batch = "take batch_size (drop (j * batch_size) keys)"
  have b: "?batch = chunk keys j" by (simp add: chunk_def)
  have nxt: "j * batch_size + batch_size = Suc j * batch_size" by simp
  show ?case
  proof (cases "s3_delete_objects w (tr @ calls_before b keys j) b ?batch")
    case (Inr r)
    have cc: "chunk_counts w b tr keys j = (len_opt (Deleted r), len_opt (Errors r))"
      using Inr by (simp add: chunk_counts_def b)
    have "delete_loop w b keys (j * batch_size) (tr @ calls_before b keys j) (s, f) =
      delete_loop w b keys (Suc j * batch_size) (tr @ calls_before b keys (Suc j))
        (s + len_opt (Deleted r), f + len_opt (Errors r))"
      unfolding delete_loop_response [OF i Inr] nxt calls_before_Suc b by simp
    also note Suc(1) [OF d le]
    finally show ?thesis by (simp add: upt cc)
  next
    case (Inl e)
    from H Inl have "is_client_error e" by blast
    then obtain msg where m: "e = ClientError msg" by (cases e) simp_all
    have cc: "chunk_counts w b tr keys j = (0, length (chunk keys j))"
      using Inl by (simp add: chunk_counts_def b)
    have "delete_loop w b keys (j * batch_size) (tr @ calls_before b keys j) (s, f) =
      delete_loop w b keys (Suc j * batch_size) (tr @ calls_before b keys (Suc j))
        (s, f + length (chunk keys j))"
      using delete_loop_client_error [OF i, of w "tr @ calls_before b keys j" b msg s f] Inl m
      unfolding nxt calls_before_Suc b by simp
    also note Suc(1) [OF d le]
    finally show ?thesis by (simp add: upt cc)
  qed
qed

lemma delete_objects_sum_acknowledged:
  assumes "\<forall>t batch. batch \<noteq> [] \<and> length batch \<le> batch_size
              \<longrightarrow> acknowledges (s3_delete_objects w t bucket_name batch) batch"
  shows "\<exists>successful failed tr'.
           delete_objects w bucket_name keys tr = (Inr (successful, failed), tr')
           \<and> successful + failed = length keys"
proof (cases "keys = []")
  case True
  then show ?thesis by (simp add: delete_objects_def)
next
  case False
  with delete_loop_sum [OF assms, of keys 0 tr 0 0] show ?thesis
    by (simp add: delete_objects_def)
qed

lemma delete_objects_chunks:
  assumes "\<forall>t batch e. s3_delete_objects w t bucket_name batch = Inl e \<longrightarrow> is_client_error e"
  shows "delete_objects w bucket_name keys tr =
      (Inr (sum_list (map (\<lambda>j. fst (chunk_counts w bucket_name tr keys j)) [0..<n_chunks keys]),
            sum_list (map (\<lambda>j. snd (chunk_counts w bucket_name tr keys j)) [0..<n_chunks keys])),
       tr @ calls_before bucket_name keys (n_chunks keys))
    \<and> (\<forall>j msg. j < n_chunks keys
          \<and> s3_delete_objects w (tr @ calls_before bucket_name keys j) bucket_name (chunk keys j)
              = Inl (ClientError msg)
          \<longrightarrow> chunk_counts w bucket_name tr keys j = (0, length (chunk keys j)))"
proof (cases "keys = []")
  case True
  then show ?thesis
    by (simp add: delete_objects_def n_chunks_def batch_size_def calls_before_def chunk_counts_def)
next
  case False
  have "delete_loop w bucket_name keys (0 * batch_size) (tr @ calls_before bucket_name keys 0) (0, 0) =
      (Inr (0 + sum_list (map (\<lambda>j. fst (chunk_counts w bucket_name tr keys j)) [0..<n_chunks keys]),
            0 + sum_list (map (\<lambda>j. snd (chunk_counts w bucket_name tr keys j)) [0..<n_chunks keys])),
       tr @ calls_before bucket_name keys (n_chunks keys))"
    by (rule delete_loop_chunks [OF assms]) simp
  then show ?thesis using False
    by (simp add: delete_objects_def calls_before_def chunk_counts_def)
qed

lemma delete_loop_abort:
  assumes raised: "s3_delete_objects w (tr @ calls_before b keys j) b (chunk keys j) = Inl e"
    and other: "\<not> is_client_error e"
    and j: "j < n_chunks keys"
    and prior: "\<forall>k<j. \<forall>e'. s3_delete_objects w (tr @ calls_before b keys k) b (chunk keys k) = Inl e'
                  \<longrightarrow> is_client_error e'"
  shows "i \<le> j \<Longrightarrow>
    delete_loop w b keys (i * batch_size) (tr @ calls_before b keys i) (s, f) =
      (Inl e, tr @ calls_before b keys (Suc j))"
proof (induction "j - i" arbitrary: i s f)
  case 0
  then have ij: "i = j" by simp
  have lt: "j * batch_size < length keys" using j by (simp add: chunk_exists)
  have "delete_loop w b keys (j * batch_size) (tr @ calls_before b keys j) (s, f) =
      (Inl e, (tr @ calls_before b keys j)
                @ [DeleteObjectsCall b (take batch_size (drop (j * batch_size) keys))])"
    by (rule delete_loop_raise [OF lt _ other]) (use raised in \<open>simp add: chunk_def\<close>)
  then show ?case unfolding ij by (simp add: calls_before_Suc chunk_def)
next
  case (Suc d)
  then have lt_j: "i < j" by simp
  then have "i < n_chunks keys" using j by simp
  then have lt: "i * batch_size < length keys" by (simp add: chunk_exists)
  have d: "d = j - Suc i" using Suc(2) by simp
  have le: "Suc i \<le> j" using lt_j by simp
  let ?batch = "take batch_size (drop (i * batch_size) keys)"
  have b: "?batch = chunk keys i" by (simp add: chunk_def)
  have nxt: "i * batch_size + batch_size = Suc i * batch_size" by simp
  show ?case
  proof (cases "s3_delete_objects w (tr @ calls_before b keys i) b ?batch")
    case (Inr r)
    have "delete_loop w b keys (i * batch_size) (tr @ calls_before b keys i) (s, f) =
      delete_loop w b keys (Suc i * batch_size) (tr @ calls_before b keys (Suc i))
        (s + len_opt (Deleted r), f + len_opt (Errors r))"
      unfolding delete_loop_response [OF lt Inr] nxt calls_before_Suc b by simp
    also note Suc(1) [OF d le]
    finally show ?thesis .
  next
    case (Inl e')
    with prior lt_j have "is_client_error e'" by (simp add: b)
    then obtain msg where m: "e' = ClientError msg" by (cases e') simp_all
    have "delete_loop w b keys (i * batch_size) (tr @ calls_before b keys i) (s, f) =
      delete_loop w b keys (Suc i * batch_size) (tr @ calls_before b keys (Suc i))
        (s, f + length (chunk keys i))"
      using delete_loop_client_error [OF lt, of w "tr @ calls_before b keys i" b msg s f] Inl m
      unfolding nxt calls_before_Suc b by simp
    also note Suc(1) [OF d le]
    finally show ?thesis .
  qed
qed

lemma delete_objects_abort:
  assumes "j < n_chunks keys"
    and "\<forall>k<j. \<forall>e'. s3_delete_objects w (tr @ calls_before b keys k) b (chunk keys k) = Inl e'
                  \<longrightarrow> is_client_error e'"
    and "s3_delete_objects w (tr @ calls_before b keys j) b (chunk keys j) = Inl e"
    and "\<not> is_client_error e"
  shows "delete_objects w b keys tr = (Inl e, tr @ calls_before b keys (Suc j))"
proof -
  have "0 * batch_size < length keys"
    using assms(1) chunk_exists [of 0 keys] by simp
  then have ne: "keys \<noteq> []" by auto
  have "delete_loop w b keys (0 * batch_size) (tr @ calls_before b keys 0) (0, 0) =
      (Inl e, tr @ calls_before b keys (Suc j))"
    by (rule delete_loop_abort [OF assms(3) assms(4) assms(1) assms(2)]) simp
  then show ?thesis using ne by (simp add: delete_objects_def calls_before_def)
qed

lemma many_keys_chunks:
  "n_chunks many_keys = 2" "length (chunk many_keys 0) = 1000"
  "length (chunk many_keys (Suc 0)) = 2" "length many_keys = 1002"
  by (simp_all add: n_chunks_def chunk_def many_keys_def batch_size_def)

text \<open>
  C3, as stated, fails: a deletion call that fails without an error response of the
  service (here, no connection) raises out of \<open>delete_objects\<close>, which returns no counts.
\<close>

theorem connection_failure_returns_no_counts:
  "delete_objects unreachable_world ''test-bucket'' [''backup-4.zip'', ''backup-5.zip''] []
     = (Inl (OtherException ''EndpointConnectionError''),
        [DeleteObjectsCall ''test-bucket'' [''backup-4.zip'', ''backup-5.zip'']])
   \<and> isl (fst (delete_objects unreachable_world ''test-bucket''
                  [''backup-4.zip'', ''backup-5.zip''] []))"
proof -
  have i: "0 < length [''backup-4.zip'', ''backup-5.zip'']" by simp
  have r: "s3_delete_objects unreachable_world [] ''test-bucket''
             (take batch_size (drop 0 [''backup-4.zip'', ''backup-5.zip'']))
           = Inl (OtherException ''EndpointConnectionError'')"
    by (simp add: unreachable_world_def)
  have o: "\<not> is_client_error (OtherException ''EndpointConnectionError'')" by simp
  have "delete_loop unreachable_world ''test-bucket'' [''backup-4.zip'', ''backup-5.zip''] 0 [] (0, 0)
      = (Inl (OtherException ''EndpointConnectionError''),
         [] @ [DeleteObjectsCall ''test-bucket''
                 (take batch_size (drop 0 [''backup-4.zip'', ''backup-5.zip'']))])"
    by (rule delete_loop_raise [OF i r o])
  then show ?thesis by (simp add: delete_objects_def batch_size_def)
qed

text \<open>
  C3, amended. Whenever every deletion call is answered by a mix of per-key successes and
  per-key errors that covers its batch, or is rejected as a whole by the service
  (\<open>ClientError\<close>), \<open>delete_objects\<close> returns counts and \<open>successful + failed\<close> is the
  number of input keys. When the call for some chunk raises any other exception, the
  calls before it having raised nothing but \<open>ClientError\<close>, \<open>delete_objects\<close> raises that
  exception and returns no counts.
\<close>

theorem delete_objects_counts_sum_to_input:
  "((\<forall>t batch. batch \<noteq> [] \<and> length batch \<le> batch_size
        \<longrightarrow> acknowledges (s3_delete_objects w t bucket_name batch) batch)
      \<longrightarrow> (\<exists>successful failed tr'.
             delete_objects w bucket_name keys tr = (Inr (successful, failed), tr')
             \<and> successful + failed = length keys))
   \<and> (j < n_chunks keys
       \<and> (\<forall>k<j. \<forall>e'. s3_delete_objects w (tr @ calls_before bucket_name keys k) bucket_name
                          (chunk keys k) = Inl e' \<longrightarrow> is_client_error e')
       \<and> s3_delete_objects w (tr @ calls_before bucket_name keys j) bucket_name (chunk keys j)
            = Inl e
       \<and> \<not> is_client_error e
      \<longrightarrow> fst (delete_objects w bucket_name keys tr) = Inl e)"
proof (intro conjI impI)
  assume "\<forall>t batch. batch \<noteq> [] \<and> length batch \<le> batch_size
        \<longrightarrow> acknowledges (s3_delete_objects w t bucket_name batch) batch"
  then show "\<exists>successful failed tr'.
             delete_objects w bucket_name keys tr = (Inr (successful, failed), tr')
             \<and> successful + failed = length keys"
    by (rule delete_objects_sum_acknowledged)
next
  assume a: "j < n_chunks keys
       \<and> (\<forall>k<j. \<forall>e'. s3_delete_objects w (tr @ calls_before bucket_name keys k) bucket_name
                          (chunk keys k) = Inl e' \<longrightarrow> is_client_error e')
       \<and> s3_delete_objects w (tr @ calls_before bucket_name keys j) bucket_name (chunk keys j)
            = Inl e
       \<and> \<not> is_client_error e"
  then have "delete_objects w bucket_name keys tr
      = (Inl e, tr @ calls_before bucket_name keys (Suc j))"
    by (intro delete_objects_abort) blast+
  then show "fst (delete_objects w bucket_name keys tr) = Inl e" by simp
qed

theorem delete_objects_counts_sum_to_input_witness:
  "length many_keys = 1002
   \<and> (\<exists>successful failed tr'.
         delete_objects example_world ''test-bucket'' many_keys [] = (Inr (successful, failed), tr')
         \<and> successful + failed = 1002)
   \<and> s3_delete_objects flaky_world ([] @ calls_before ''test-bucket'' many_keys 0) ''test-bucket''
        (chunk many_keys 0) = Inl (ClientError ''SlowDown'')
   \<and> s3_delete_objects flaky_world ([] @ calls_before ''test-bucket'' many_keys 1) ''test-bucket''
        (chunk many_keys 1) = Inl (OtherException ''ConnectionClosedError'')
   \<and> fst (delete_objects flaky_world ''test-bucket'' many_keys [])
        = Inl (OtherException ''ConnectionClosedError'')"
proof -
  have a: "\<forall>t batch. batch \<noteq> [] \<and> length batch \<le> batch_size
       \<longrightarrow> acknowledges (s3_delete_objects example_world t ''test-bucket'' batch) batch"
    by (auto simp: acknowledges_def example_world_def example_delete_objects_def len_opt_def)
  from delete_objects_counts_sum_to_input
         [where w = example_world and bucket_name = "''test-bucket''" and keys = many_keys
            and tr = "[]"] a
  have s: "\<exists>successful failed tr'.
         delete_objects example_world ''test-bucket'' many_keys [] = (Inr (successful, failed), tr')
         \<and> successful + failed = 1002"
    by (simp add: many_keys_chunks(4))
  have c0: "s3_delete_objects flaky_world ([] @ calls_before ''test-bucket'' many_keys 0)
        ''test-bucket'' (chunk many_keys 0) = Inl (ClientError ''SlowDown'')"
    by (simp add: flaky_world_def many_keys_chunks batch_size_def)
  have c1: "s3_delete_objects flaky_world ([] @ calls_before ''test-bucket'' many_keys 1)
        ''test-bucket'' (chunk many_keys 1) = Inl (OtherException ''ConnectionClosedError'')"
    by (simp add: flaky_world_def many_keys_chunks batch_size_def)
  have prior: "\<forall>k<1. \<forall>e'. s3_delete_objects flaky_world ([] @ calls_before ''test-bucket'' many_keys k)
        ''test-bucket'' (chunk many_keys k) = Inl e' \<longrightarrow> is_client_error e'"
    using c0 by auto
  have j: "(1::nat) < n_chunks many_keys" by (simp add: many_keys_chunks)
  have o: "\<not> is_client_error (OtherException ''ConnectionClosedError'')" by simp
  from delete_objects_counts_sum_to_input
         [where w = flaky_world and bucket_name = "''test-bucket''" and j = 1
            and keys = many_keys and tr = "[]" and e = "OtherException ''ConnectionClosedError''"]
       j prior c1 o
  have "fst (delete_objects flaky_world ''test-bucket'' many_keys [])
        = Inl (OtherException ''ConnectionClosedError'')"
    by blast
  with s c0 c1 many_keys_chunks(4) show ?thesis by blast
qed

text \<open>
  C9. On an empty key list \<open>delete_objects\<close> returns \<open>(0, 0)\<close> and leaves the trace as
  it was: no backend call is issued.
\<close>

theorem delete_objects_empty:
  "delete_objects w bucket_name [] tr = (Inr (0, 0), tr)"
  by (simp add: delete_objects_def)

text \<open>
  C6, as stated, fails: when the call for the first of two chunks fails without an error
  response of the service, \<open>delete_objects\<close> raises; the keys of that chunk are not
  counted and the second chunk is never submitted.
\<close>

theorem connection_failure_aborts_deletion:
  "n_chunks many_keys = 2
   \<and> delete_objects unreachable_world ''test-bucket'' many_keys []
       = (Inl (OtherException ''EndpointConnectionError''),
          [DeleteObjectsCall ''test-bucket'' (chunk many_keys 0)])"
proof -
  have i: "0 < length many_keys" by (simp add: many_keys_chunks)
  have r: "s3_delete_objects unreachable_world [] ''test-bucket''
             (take batch_size (drop 0 many_keys))
           = Inl (OtherException ''EndpointConnectionError'')"
    by (simp add: unreachable_world_def)
  have o: "\<not> is_client_error (OtherException ''EndpointConnectionError'')" by simp
  have ne: "many_keys \<noteq> []" using i by auto
  have "delete_loop unreachable_world ''test-bucket'' many_keys 0 [] (0, 0)
      = (Inl (OtherException ''EndpointConnectionError''),
         [] @ [DeleteObjectsCall ''test-bucket'' (take batch_size (drop 0 many_keys))])"
    by (rule delete_loop_raise [OF i r o])
  then have "delete_objects unreachable_world ''test-bucket'' many_keys []
       = (Inl (OtherException ''EndpointConnectionError''),
          [DeleteObjectsCall ''test-bucket'' (chunk many_keys 0)])"
    using ne by (simp add: delete_objects_def chunk_def)
  then show ?thesis by (simp add: many_keys_chunks)
qed

text \<open>
  C6, amended. When the only exception the deletion call raises is the service's rejection
  of a call (\<open>ClientError\<close>), \<open>delete_objects\<close> never aborts: it issues one call for every
  chunk of the key list, in order, and returns the per-chunk counts added up, where a
  chunk whose call is rejected adds nothing to \<open>successful\<close> and all of its keys to
  \<open>failed\<close>. When the call for some chunk raises any other exception, the calls before it
  having raised nothing but \<open>ClientError\<close>, \<open>delete_objects\<close> aborts: the exception
  propagates, no counts are returned, and no chunk after that one is submitted.
\<close>

theorem rejected_chunk_failed_and_loop_continues:
  "((\<forall>t batch e'. s3_delete_objects w t bucket_name batch = Inl e' \<longrightarrow> is_client_error e')
      \<longrightarrow> delete_objects w bucket_name keys tr =
            (Inr (sum_list (map (\<lambda>k. fst (chunk_counts w bucket_name tr keys k))
                              [0..<n_chunks keys]),
                  sum_list (map (\<lambda>k. snd (chunk_counts w bucket_name tr keys k))
                              [0..<n_chunks keys])),
             tr @ calls_before bucket_name keys (n_chunks keys))
          \<and> (\<forall>k msg. k < n_chunks keys
                \<and> s3_delete_objects w (tr @ calls_before bucket_name keys k) bucket_name
                     (chunk keys k) = Inl (ClientError msg)
                \<longrightarrow> chunk_counts w bucket_name tr keys k = (0, length (chunk keys k))))
   \<and> (j < n_chunks keys
       \<and> (\<forall>k<j. \<forall>e'. s3_delete_objects w (tr @ calls_before bucket_name keys k) bucket_name
                          (chunk keys k) = Inl e' \<longrightarrow> is_client_error e')
       \<and> s3_delete_objects w (tr @ calls_before bucket_name keys j) bucket_name (chunk keys j)
            = Inl e
       \<and> \<not> is_client_error e
      \<longrightarrow> delete_objects w bucket_name keys tr
            = (Inl e, tr @ calls_before bucket_name keys (Suc j)))"
proof (intro conjI impI)
  assume h: "\<forall>t batch e'. s3_delete_objects w t bucket_name batch = Inl e' \<longrightarrow> is_client_error e'"
  from delete_objects_chunks [OF h, of keys tr]
  show "delete_objects w bucket_name keys tr =
            (Inr (sum_list (map (\<lambda>k. fst (chunk_counts w bucket_name tr keys k))
                              [0..<n_chunks keys]),
                  sum_list (map (\<lambda>k. snd (chunk_counts w bucket_name tr keys k))
                              [0..<n_chunks keys])),
             tr @ calls_before bucket_name keys (n_chunks keys))"
    by blast
  from delete_objects_chunks [OF h, of keys tr]
  show "\<forall>k msg. k < n_chunks keys
                \<and> s3_delete_objects w (tr @ calls_before bucket_name keys k) bucket_name
                     (chunk keys k) = Inl (ClientError msg)
                \<longrightarrow> chunk_counts w bucket_name tr keys k = (0, length (chunk keys k))"
    by blast
next
  assume "j < n_chunks keys
       \<and> (\<forall>k<j. \<forall>e'. s3_delete_objects w (tr @ calls_before bucket_name keys k) bucket_name
                          (chunk keys k) = Inl e' \<longrightarrow> is_client_error e')
       \<and> s3_delete_objects w (tr @ calls_before bucket_name keys j) bucket_name (chunk keys j)
            = Inl e
       \<and> \<not> is_client_error e"
  then show "delete_objects w bucket_name keys tr
      = (Inl e, tr @ calls_before bucket_name keys (Suc j))"
    by (intro delete_objects_abort) blast+
qed

theorem rejected_chunk_failed_and_loop_continues_witness:
  "n_chunks many_keys = 2
   \<and> s3_delete_objects example_world [] ''test-bucket'' (chunk many_keys 0)
        = Inl (ClientError ''SlowDown'')
   \<and> length (chunk many_keys 0) = 1000
   \<and> delete_objects example_world ''test-bucket'' many_keys [] =
        (Inr (1, 1001),
         [DeleteObjectsCall ''test-bucket'' (chunk many_keys 0),
          DeleteObjectsCall ''test-bucket'' (chunk many_keys 1)])
   \<and> s3_delete_objects flaky_world ([] @ calls_before ''test-bucket'' many_keys 1) ''test-bucket''
        (chunk many_keys 1) = Inl (OtherException ''ConnectionClosedError'')
   \<and> delete_objects flaky_world ''test-bucket'' many_keys [] =
        (Inl (OtherException ''ConnectionClosedError''),
         [DeleteObjectsCall ''test-bucket'' (chunk many_keys 0),
          DeleteObjectsCall ''test-bucket'' (chunk many_keys 1)])"
proof -
  have h: "\<forall>t batch e'. s3_delete_objects example_world t ''test-bucket'' batch = Inl e'
        \<longrightarrow> is_client_error e'"
    by (auto simp: example_world_def example_delete_objects_def split: if_splits)
  have n: "n_chunks many_keys = 2" by (rule many_keys_chunks)
  have l0: "length (chunk many_keys 0) = 1000" by (rule many_keys_chunks)
  have l1: "length (chunk many_keys (Suc 0)) = 2" by (rule many_keys_chunks)
  have r0: "s3_delete_objects example_world [] ''test-bucket'' (chunk many_keys 0)
        = Inl (ClientError ''SlowDown'')"
    by (simp add: example_world_def example_delete_objects_def l0 batch_size_def)
  have c0: "chunk_counts example_world ''test-bucket'' [] many_keys 0 = (0, 1000)"
    using r0 by (simp add: chunk_counts_def calls_before_def l0)
  have c1: "chunk_counts example_world ''test-bucket'' [] many_keys (Suc 0) = (1, 1)"
    by (simp add: chunk_counts_def example_world_def example_delete_objects_def l1
        batch_size_def len_opt_def)
  have u: "[0..<2] = [0, Suc 0]" by (simp add: upt_rec)
  from rejected_chunk_failed_and_loop_continues
         [where w = example_world and bucket_name = "''test-bucket''" and keys = many_keys
            and tr = "[]"] h
  have "delete_objects example_world ''test-bucket'' many_keys [] =
      (Inr (sum_list (map (\<lambda>k. fst (chunk_counts example_world ''test-bucket'' [] many_keys k))
                        [0..<n_chunks many_keys]),
            sum_list (map (\<lambda>k. snd (chunk_counts example_world ''test-bucket'' [] many_keys k))
                        [0..<n_chunks many_keys])),
       [] @ calls_before ''test-bucket'' many_keys (n_chunks many_keys))"
    by blast
  then have ok: "delete_objects example_world ''test-bucket'' many_keys [] =
        (Inr (1, 1001),
         [DeleteObjectsCall ''test-bucket'' (chunk many_keys 0),
          DeleteObjectsCall ''test-bucket'' (chunk many_keys 1)])"
    by (simp add: n u c0 c1 calls_before_def)
  have f0: "s3_delete_objects flaky_world ([] @ calls_before ''test-bucket'' many_keys 0)
        ''test-bucket'' (chunk many_keys 0) = Inl (ClientError ''SlowDown'')"
    by (simp add: flaky_world_def many_keys_chunks batch_size_def)
  have f1: "s3_delete_objects flaky_world ([] @ calls_before ''test-bucket'' many_keys 1)
        ''test-bucket'' (chunk many_keys 1) = Inl (OtherException ''ConnectionClosedError'')"
    by (simp add: flaky_world_def many_keys_chunks batch_size_def)
  have prior: "\<forall>k<1. \<forall>e'. s3_delete_objects flaky_world ([] @ calls_before ''test-bucket'' many_keys k)
        ''test-bucket'' (chunk many_keys k) = Inl e' \<longrightarrow> is_client_error e'"
    using f0 by auto
  have j: "(1::nat) < n_chunks many_keys" by (simp add: many_keys_chunks)
  have o: "\<not> is_client_error (OtherException ''ConnectionClosedError'')" by simp
  from rejected_chunk_failed_and_loop_continues
         [where w = flaky_world and bucket_name = "''test-bucket''" and j = 1
            and keys = many_keys and tr = "[]" and e = "OtherException ''ConnectionClosedError''"]
       j prior f1 o
  have "delete_objects flaky_world ''test-bucket'' many_keys [] =
        (Inl (OtherException ''ConnectionClosedError''),
         [] @ calls_before ''test-bucket'' many_keys (Suc 1))"
    by blast
  then have ab: "delete_objects flaky_world ''test-bucket'' many_keys [] =
        (Inl (OtherException ''ConnectionClosedError''),
         [DeleteObjectsCall ''test-bucket'' (chunk many_keys 0),
          DeleteObjectsCall ''test-bucket'' (chunk many_keys 1)])"
    by (simp add: calls_before_def u)
  from n r0 l0 ok f1 ab show ?thesis by blast
qed

section \<open>Configuration and the handler: properties\<close>

text \<open>
  C7. When \<^verbatim>\<open>BUCKET_NAME\<close> or \<^verbatim>\<open>RETENTION_CONFIG\<close> is missing or empty, the handler
  returns the 400 response naming the missing variable, and the trace of backend calls is
  empty.
\<close>

theorem missing_input_is_config_error_without_backend_call:
  assumes "BUCKET_NAME env = None \<or> BUCKET_NAME env = Some []
           \<or> RETENTION_CONFIG env = None \<or> RETENTION_CONFIG env = Some []"
  shows "lambda_handler w env event =
     (\<lparr>statusCode = 400,
       body = ErrorBody
         (if BUCKET_NAME env = None \<or> BUCKET_NAME env = Some []
          then ''BUCKET_NAME environment variable is required''
          else ''RETENTION_CONFIG environment variable is required'')\<rparr>, [])"
  using assms
  by (auto simp: lambda_handler_def config_error_def split: option.splits)

theorem missing_input_is_config_error_without_backend_call_witness:
  "lambda_handler example_world \<lparr>BUCKET_NAME = Some '''', RETENTION_CONFIG = Some ''''\<rparr> (PDict [])
     = (\<lparr>statusCode = 400,
         body = ErrorBody ''BUCKET_NAME environment variable is required''\<rparr>, [])
   \<and> lambda_handler example_world \<lparr>BUCKET_NAME = Some ''test-bucket'', RETENTION_CONFIG = None\<rparr> (PDict [])
     = (\<lparr>statusCode = 400,
         body = ErrorBody ''RETENTION_CONFIG environment variable is required''\<rparr>, [])"
  using missing_input_is_config_error_without_backend_call
          [of "\<lparr>BUCKET_NAME = Some '''', RETENTION_CONFIG = Some ''''\<rparr>" example_world "PDict []"]
        missing_input_is_config_error_without_backend_call
          [of "\<lparr>BUCKET_NAME = Some ''test-bucket'', RETENTION_CONFIG = None\<rparr>" example_world "PDict []"]
  by simp

lemma handler_runs:
  "BUCKET_NAME env = Some bucket_name \<Longrightarrow> bucket_name \<noteq> [] \<Longrightarrow>
   RETENTION_CONFIG env = Some retention_config \<Longrightarrow> retention_config \<noteq> [] \<Longrightarrow>
   lambda_handler w env event = run_policies w bucket_name retention_config"
  by (simp add: lambda_handler_def)

lemma parse_config_no_key:
  "''retention_policies'' \<notin> set (map fst kvs) \<Longrightarrow> parse_config (PDict kvs) = Inr []"
  by (simp add: parse_config_def)

lemma run_policies_load_error:
  "load_retention_config w rc [] = (Inl e, tr) \<Longrightarrow>
   run_policies w b rc =
     (\<lparr>statusCode = 500, body = InternalErrorBody ''Internal server error'' e\<rparr>, tr)"
  by (simp add: run_policies_def)

lemma run_policies_no_policies:
  "load_retention_config w rc [] = (Inr [], tr) \<Longrightarrow>
   run_policies w b rc =
     (\<lparr>statusCode = 200, body = NoPoliciesBody ''No retention policies configured'' []\<rparr>, tr)"
  by (simp add: run_policies_def)

lemma run_policies_completed:
  assumes "load_retention_config w rc [] = (Inr policies, tr)" and "policies \<noteq> []"
    and "process_policies w b policies [] tr = (results, tr')"
  shows "run_policies w b rc =
     (\<lparr>statusCode = 200,
       body = CompletedBody ''Backup cleanup completed''
                (total_deleted results) (total_failed results) results\<rparr>, tr')"
  using assms by (simp add: run_policies_def)

lemma load_of_read:
  "read_config_data w rc tr = (Inr doc, tr') \<Longrightarrow>
   load_retention_config w rc tr = (parse_config doc, tr')"
  "read_config_data w rc tr = (Inl e, tr') \<Longrightarrow>
   load_retention_config w rc tr = (Inl e, tr')"
  by (simp_all add: load_retention_config_def)

lemma read_config_trace:
  "read_config_data w rc [] = (r, tr) \<Longrightarrow>
     (\<not> startswith rc ''s3://'' \<and> tr = [])
     \<or> (startswith rc ''s3://'' \<and> tr = [GetObjectCall (fst (split_s3_path (drop 5 rc)))
                                                    (snd (split_s3_path (drop 5 rc)))])"
  by (auto simp: read_config_data_def split: if_splits prod.splits sum.splits)

lemma example_env_simps:
  "BUCKET_NAME (example_env b c) = Some b" "RETENTION_CONFIG (example_env b c) = Some c"
  by (simp_all add: example_env_def)

lemma read_empty:
  "read_config_data example_world empty_config [] = (Inr (PDict []), [])"
  by (simp add: read_config_data_def startswith_def example_world_def
      example_json_loads_def empty_config_def)

lemma read_stored_empty:
  "read_config_data example_world ''s3://config-bucket/empty.json'' []
     = (Inr (PDict []), [GetObjectCall ''config-bucket'' ''empty.json''])"
  by (simp add: read_config_data_def startswith_def split_s3_path_def
      example_world_def example_get_object_def example_json_loads_def)

lemma read_malformed:
  "read_config_data example_world malformed_config []
     = (Inl (JSONDecodeError ''Expecting property name enclosed in double quotes''), [])"
  by (simp add: read_config_data_def startswith_def malformed_config_def example_world_def
      example_json_loads_def empty_config_def missing_folder_config_def two_folder_config_def)

lemma read_missing_folder:
  "read_config_data example_world missing_folder_config []
     = (Inr (PDict [(''retention_policies'', PList [PDict [(''days_to_keep'', PInt 30)]])]), [])"
  by (simp add: read_config_data_def startswith_def example_world_def
      example_json_loads_def empty_config_def missing_folder_config_def two_folder_config_def)

lemma read_stored_malformed:
  "read_config_data example_world ''s3://config-bucket'' []
     = (Inl (JSONDecodeError ''Expecting property name enclosed in double quotes''),
        [GetObjectCall ''config-bucket'' ''config.json''])"
  by (simp add: read_config_data_def startswith_def split_s3_path_def malformed_config_def
      example_world_def example_get_object_def
      example_json_loads_def empty_config_def missing_folder_config_def two_folder_config_def)

lemma read_two_folder:
  "read_config_data example_world two_folder_config []
     = (Inr (PDict [(''retention_policies'',
               PList [PDict [(''folder'', PStr ''broken/'')],
                      PDict [(''folder'', PStr ''test/''), (''days_to_keep'', PInt 30),
                             (''min_backups_to_keep'', PInt 2)]])]), [])"
  by (simp add: read_config_data_def startswith_def example_world_def
      example_json_loads_def empty_config_def missing_folder_config_def two_folder_config_def)

text \<open>
  C8. When the parsed configuration document is an object without the key
  \<^verbatim>\<open>retention_policies\<close>, \<open>load_retention_config\<close> returns no policies and the handler
  returns the 200 response with the message \<^verbatim>\<open>No retention policies configured\<close> and an
  empty result list. The only backend call there can be is the fetch of a stored
  configuration.
\<close>

theorem no_retention_policies_key_is_success:
  assumes "BUCKET_NAME env = Some bucket_name" and "bucket_name \<noteq> []"
    and "RETENTION_CONFIG env = Some retention_config" and "retention_config \<noteq> []"
    and "read_config_data w retention_config [] = (Inr (PDict kvs), tr)"
    and "''retention_policies'' \<notin> set (map fst kvs)"
  shows "load_retention_config w retention_config [] = (Inr [], tr)
    \<and> lambda_handler w env event =
        (\<lparr>statusCode = 200,
          body = NoPoliciesBody ''No retention policies configured'' []\<rparr>, tr)
    \<and> filter (\<lambda>c. \<not> is_get_object c) tr = []"
proof -
  have l: "load_retention_config w retention_config [] = (Inr [], tr)"
    using load_of_read(1) [OF assms(5)] parse_config_no_key [OF assms(6)] by simp
  have t: "filter (\<lambda>c. \<not> is_get_object c) tr = []"
    using read_config_trace [OF assms(5)] by auto
  from l t handler_runs [OF assms(1-4), of w event] run_policies_no_policies [OF l, of bucket_name]
  show ?thesis by simp
qed

theorem no_retention_policies_key_is_success_witness:
  "load_retention_config example_world empty_config [] = (Inr [], [])
   \<and> lambda_handler example_world (example_env ''test-bucket'' empty_config) (PDict []) =
        (\<lparr>statusCode = 200,
          body = NoPoliciesBody ''No retention policies configured'' []\<rparr>, [])
   \<and> lambda_handler example_world
        (example_env ''test-bucket'' ''s3://config-bucket/empty.json'') (PDict []) =
        (\<lparr>statusCode = 200,
          body = NoPoliciesBody ''No retention policies configured'' []\<rparr>,
         [GetObjectCall ''config-bucket'' ''empty.json''])"
proof -
  have ne: "''test-bucket'' \<noteq> []" "empty_config \<noteq> []" "''s3://config-bucket/empty.json'' \<noteq> []"
    by (simp_all add: empty_config_def)
  have k: "''retention_policies'' \<notin> set (map fst ([] :: (string \<times> pyval) list))" by simp
  from no_retention_policies_key_is_success
         [OF example_env_simps(1) ne(1) example_env_simps(2) ne(2) read_empty k, of "PDict []"]
       no_retention_policies_key_is_success
         [OF example_env_simps(1) ne(1) example_env_simps(2) ne(3) read_stored_empty k, of "PDict []"]
  show ?thesis by simp
qed

lemma load_policies_fail:
  "x \<in> set items \<Longrightarrow> make_policy x = Inl e0 \<Longrightarrow> \<exists>e. load_policies items acc = Inl e"
proof (induction items arbitrary: acc)
  case Nil
  then show ?case by simp
next
  case (Cons a items)
  show ?case
  proof (cases "make_policy a")
    case (Inl e)
    then show ?thesis by simp
  next
    case (Inr pol)
    with Cons.prems have "x \<in> set items" by auto
    from Cons.IH [OF this Cons.prems(2)] Inr show ?thesis by simp
  qed
qed

lemma parse_config_policies:
  assumes "map_of kvs ''retention_policies'' = Some (PList items)"
  shows "parse_config (PDict kvs) = load_policies items []"
proof -
  from assms have "''retention_policies'' \<in> set (map fst kvs)"
    by (metis map_of_eq_None_iff option.distinct(1) set_map)
  with assms show ?thesis by (simp add: parse_config_def)
qed

lemma make_policy_no_folder:
  "''folder'' \<notin> set (map fst rec) \<Longrightarrow> make_policy (PDict rec) = Inl (KeyError ''folder'')"
  by (simp add: map_of_eq_None_iff [THEN iffD2])

text \<open>
  C5, as stated, fails: a malformed configuration string and a policy record without
  \<^verbatim>\<open>folder\<close> both end in the handler's catch-all, which answers 500, not 400.
\<close>

theorem malformed_config_is_500_not_400:
  "lambda_handler example_world (example_env ''test-bucket'' malformed_config) (PDict [])
     = (\<lparr>statusCode = 500,
         body = InternalErrorBody ''Internal server error''
                  (JSONDecodeError ''Expecting property name enclosed in double quotes'')\<rparr>, [])
   \<and> statusCode (fst (lambda_handler example_world
         (example_env ''test-bucket'' malformed_config) (PDict []))) \<noteq> 400
   \<and> lambda_handler example_world (example_env ''test-bucket'' missing_folder_config) (PDict [])
     = (\<lparr>statusCode = 500,
         body = InternalErrorBody ''Internal server error'' (KeyError ''folder'')\<rparr>, [])
   \<and> statusCode (fst (lambda_handler example_world
         (example_env ''test-bucket'' missing_folder_config) (PDict []))) \<noteq> 400"
proof -
  have m: "malformed_config \<noteq> []" "missing_folder_config \<noteq> []"
    by (simp_all add: malformed_config_def missing_folder_config_def)
  have a: "lambda_handler example_world (example_env ''test-bucket'' malformed_config) (PDict [])
     = (\<lparr>statusCode = 500,
         body = InternalErrorBody ''Internal server error''
                  (JSONDecodeError ''Expecting property name enclosed in double quotes'')\<rparr>, [])"
    using m read_malformed
    by (simp add: lambda_handler_def example_env_def run_policies_def load_retention_config_def)
  have b: "lambda_handler example_world (example_env ''test-bucket'' missing_folder_config) (PDict [])
     = (\<lparr>statusCode = 500,
         body = InternalErrorBody ''Internal server error'' (KeyError ''folder'')\<rparr>, [])"
    using m read_missing_folder
    by (simp add: lambda_handler_def example_env_def run_policies_def load_retention_config_def
        parse_config_def)
  show ?thesis unfolding a b by simp
qed

text \<open>
  C5, amended. Whenever reading the configuration raises (\<^verbatim>\<open>json.loads\<close> rejects
  malformed text) or a policy record of the document has no \<^verbatim>\<open>folder\<close>, the handler
  returns the 500 response carrying the exception; no listing or deletion call is issued,
  and with an inline configuration string no backend call at all.
\<close>

theorem bad_configuration_is_500_before_listing:
  assumes "BUCKET_NAME env = Some bucket_name" and "bucket_name \<noteq> []"
    and "RETENTION_CONFIG env = Some retention_config" and "retention_config \<noteq> []"
    and "read_config_data w retention_config [] = (r, tr)"
    and "(\<exists>e. r = Inl e)
       \<or> (\<exists>kvs items rec. r = Inr (PDict kvs)
             \<and> map_of kvs ''retention_policies'' = Some (PList items)
             \<and> PDict rec \<in> set items \<and> ''folder'' \<notin> set (map fst rec))"
  shows "\<exists>e. lambda_handler w env event =
            (\<lparr>statusCode = 500, body = InternalErrorBody ''Internal server error'' e\<rparr>, tr)
          \<and> (\<forall>e'. r = Inl e' \<longrightarrow> e = e')
          \<and> filter (\<lambda>c. \<not> is_get_object c) tr = []
          \<and> (\<not> startswith retention_config ''s3://'' \<longrightarrow> tr = [])"
proof -
  have t: "filter (\<lambda>c. \<not> is_get_object c) tr = []"
          "\<not> startswith retention_config ''s3://'' \<longrightarrow> tr = []"
    using read_config_trace [OF assms(5)] by auto
  have "\<exists>e. load_retention_config w retention_config [] = (Inl e, tr)
            \<and> (\<forall>e'. r = Inl e' \<longrightarrow> e = e')"
    using assms(6)
  proof
    assume "\<exists>e. r = Inl e"
    then obtain e where e: "r = Inl e" by blast
    with load_of_read(2) [of w retention_config "[]" e tr] assms(5) show ?thesis by simp
  next
    assume "\<exists>kvs items rec. r = Inr (PDict kvs)
             \<and> map_of kvs ''retention_policies'' = Some (PList items)
             \<and> PDict rec \<in> set items \<and> ''folder'' \<notin> set (map fst rec)"
    then obtain kvs items rec where r: "r = Inr (PDict kvs)"
      and m: "map_of kvs ''retention_policies'' = Some (PList items)"
      and i: "PDict rec \<in> set items" and f: "''folder'' \<notin> set (map fst rec)"
      by blast
    from load_policies_fail [OF i make_policy_no_folder [OF f]]
    obtain e where "load_policies items [] = Inl e" by blast
    with parse_config_policies [OF m] have "parse_config (PDict kvs) = Inl e" by simp
    with load_of_read(1) [of w retention_config "[]" "PDict kvs" tr] assms(5) r
    show ?thesis by simp
  qed
  then obtain e where e: "load_retention_config w retention_config [] = (Inl e, tr)"
    "\<forall>e'. r = Inl e' \<longrightarrow> e = e'" by blast
  from handler_runs [OF assms(1-4), of w event] run_policies_load_error [OF e(1), of bucket_name]
  have "lambda_handler w env event =
            (\<lparr>statusCode = 500, body = InternalErrorBody ''Internal server error'' e\<rparr>, tr)"
    by simp
  with e(2) t show ?thesis by blast
qed

theorem bad_configuration_is_500_before_listing_witness:
  "(\<exists>e. lambda_handler example_world (example_env ''test-bucket'' malformed_config) (PDict []) =
            (\<lparr>statusCode = 500, body = InternalErrorBody ''Internal server error'' e\<rparr>, []))
   \<and> (\<exists>e. lambda_handler example_world (example_env ''test-bucket'' missing_folder_config) (PDict []) =
            (\<lparr>statusCode = 500, body = InternalErrorBody ''Internal server error'' e\<rparr>, []))
   \<and> (\<exists>e. lambda_handler example_world (example_env ''test-bucket'' ''s3://config-bucket'') (PDict []) =
            (\<lparr>statusCode = 500, body = InternalErrorBody ''Internal server error'' e\<rparr>,
             [GetObjectCall ''config-bucket'' ''config.json'']))"
proof -
  have ne: "''test-bucket'' \<noteq> []" "malformed_config \<noteq> []" "missing_folder_config \<noteq> []"
    "''s3://config-bucket'' \<noteq> []"
    by (simp_all add: malformed_config_def missing_folder_config_def)
  have c1: "\<exists>e. Inl (JSONDecodeError ''Expecting property name enclosed in double quotes'')
                = (Inl e :: exn + pyval)" by blast
  have c2: "\<exists>kvs items rec.
       (Inr (PDict [(''retention_policies'', PList [PDict [(''days_to_keep'', PInt 30)]])]) :: exn + pyval)
          = Inr (PDict kvs)
       \<and> map_of kvs ''retention_policies'' = Some (PList items)
       \<and> PDict rec \<in> set items \<and> ''folder'' \<notin> set (map fst rec)"
    by (intro exI [of _ "[(''retention_policies'', PList [PDict [(''days_to_keep'', PInt 30)]])]"]
              exI [of _ "[PDict [(''days_to_keep'', PInt 30)]]"]
              exI [of _ "[(''days_to_keep'', PInt 30)]"]) simp
  from bad_configuration_is_500_before_listing
         [OF example_env_simps(1) ne(1) example_env_simps(2) ne(2) read_malformed disjI1 [OF c1]]
  have a: "\<exists>e. lambda_handler example_world (example_env ''test-bucket'' malformed_config) (PDict []) =
            (\<lparr>statusCode = 500, body = InternalErrorBody ''Internal server error'' e\<rparr>, [])"
    by blast
  from bad_configuration_is_500_before_listing
         [OF example_env_simps(1) ne(1) example_env_simps(2) ne(3) read_missing_folder disjI2 [OF c2]]
  have b: "\<exists>e. lambda_handler example_world (example_env ''test-bucket'' missing_folder_config) (PDict []) =
            (\<lparr>statusCode = 500, body = InternalErrorBody ''Internal server error'' e\<rparr>, [])"
    by blast
  from bad_configuration_is_500_before_listing
         [OF example_env_simps(1) ne(1) example_env_simps(2) ne(4) read_stored_malformed disjI1 [OF c1]]
  have c: "\<exists>e. lambda_handler example_world (example_env ''test-bucket'' ''s3://config-bucket'') (PDict []) =
            (\<lparr>statusCode = 500, body = InternalErrorBody ''Internal server error'' e\<rparr>,
             [GetObjectCall ''config-bucket'' ''config.json''])"
    by blast
  from a b c show ?thesis by blast
qed

section \<open>Orchestration: properties\<close>

lemma process_policies_acc:
  "process_policies w b ps acc tr =
     (acc @ fst (process_policies w b ps [] tr), snd (process_policies w b ps [] tr))"
proof (induction ps arbitrary: acc tr)
  case Nil
  then show ?case by simp
next
  case (Cons p ps)
  show ?case
  proof (cases "process_folder w b p tr")
    case (Pair r t1)
    show ?thesis
    proof (cases r)
      case (Inl e)
      with Pair Cons.IH [of "acc @ [FolderError (folder p) e]" t1]
        Cons.IH [of "[FolderError (folder p) e]" t1]
      show ?thesis by simp
    next
      case (Inr res)
      with Pair Cons.IH [of "acc @ [res]" t1] Cons.IH [of "[res]" t1]
      show ?thesis by simp
    qed
  qed
qed

lemma process_policies_error:
  assumes "process_folder w b p tr = (Inl e, t1)"
  shows "process_policies w b (p # ps) [] tr =
     (FolderError (folder p) e # fst (process_policies w b ps [] t1),
      snd (process_policies w b ps [] t1))"
  using assms process_policies_acc [of w b ps "[FolderError (folder p) e]" t1] by simp

lemma process_policies_ok:
  assumes "process_folder w b p tr = (Inr res, t1)"
  shows "process_policies w b (p # ps) [] tr =
     (res # fst (process_policies w b ps [] t1), snd (process_policies w b ps [] t1))"
  using assms process_policies_acc [of w b ps "[res]" t1] by simp

lemma process_policies_append:
  "process_policies w b (ps1 @ ps2) [] tr =
     (fst (process_policies w b ps1 [] tr)
        @ fst (process_policies w b ps2 [] (snd (process_policies w b ps1 [] tr))),
      snd (process_policies w b ps2 [] (snd (process_policies w b ps1 [] tr))))"
proof (induction ps1 arbitrary: tr)
  case Nil
  then show ?case by simp
next
  case (Cons p ps1)
  show ?case
  proof (cases "process_folder w b p tr")
    case (Pair r t1)
    show ?thesis
    proof (cases r)
      case (Inl e)
      with Pair have pf: "process_folder w b p tr = (Inl e, t1)" by simp
      show ?thesis
        using process_policies_error [OF pf, of "ps1 @ ps2"] process_policies_error [OF pf, of ps1]
          Cons.IH [of t1] by simp
    next
      case (Inr res)
      with Pair have pf: "process_folder w b p tr = (Inr res, t1)" by simp
      show ?thesis
        using process_policies_ok [OF pf, of "ps1 @ ps2"] process_policies_ok [OF pf, of ps1]
          Cons.IH [of t1] by simp
    qed
  qed
qed

lemma delete_loop_trace:
  "\<exists>calls. snd (delete_loop w b keys i tr c) = tr @ calls \<and> filter is_paginate calls = []"
proof (induction "length keys - i" arbitrary: i tr c rule: less_induct)
  case less
  obtain s f where c: "c = (s, f)" by (cases c)
  show ?case
  proof (cases "i < length keys")
    case False
    then show ?thesis by (simp add: c delete_loop_done)
  next
    case True
    let ?batch = "take batch_size (drop i keys)"
    let ?tr = "tr @ [DeleteObjectsCall b ?batch]"
    have dec: "length keys - (i + batch_size) < length keys - i"
      using True by (simp add: batch_size_def)
    show ?thesis
    proof (cases "s3_delete_objects w tr b ?batch")
      case (Inr r)
      from less [OF dec, of ?tr "(s + len_opt (Deleted r), f + len_opt (Errors r))"]
      obtain calls where "snd (delete_loop w b keys (i + batch_size) ?tr
          (s + len_opt (Deleted r), f + len_opt (Errors r))) = ?tr @ calls"
        "filter is_paginate calls = []" by blast
      then have "snd (delete_loop w b keys i tr (s, f)) = tr @ (DeleteObjectsCall b ?batch # calls)
          \<and> filter is_paginate (DeleteObjectsCall b ?batch # calls) = []"
        using delete_loop_response [OF True Inr, of s f] by simp
      then show ?thesis unfolding c by blast
    next
      case (Inl e)
      show ?thesis
      proof (cases "is_client_error e")
        case True
        then obtain msg where m: "e = ClientError msg" by (cases e) simp_all
        from less [OF dec, of ?tr "(s, f + length ?batch)"]
        obtain calls where "snd (delete_loop w b keys (i + batch_size) ?tr
            (s, f + length ?batch)) = ?tr @ calls"
          "filter is_paginate calls = []" by blast
        then have "snd (delete_loop w b keys i tr (s, f)) = tr @ (DeleteObjectsCall b ?batch # calls)
            \<and> filter is_paginate (DeleteObjectsCall b ?batch # calls) = []"
          using delete_loop_client_error [OF \<open>i < length keys\<close>, of w tr b msg s f] Inl m by simp
        then show ?thesis unfolding c by blast
      next
        case False
        have "snd (delete_loop w b keys i tr (s, f)) = tr @ [DeleteObjectsCall b ?batch]
            \<and> filter is_paginate [DeleteObjectsCall b ?batch] = []"
          using delete_loop_raise [OF \<open>i < length keys\<close> Inl False, of s f] by simp
        then show ?thesis unfolding c by blast
      qed
    qed
  qed
qed

lemma delete_objects_trace:
  "\<exists>calls. snd (delete_objects w b keys tr) = tr @ calls \<and> filter is_paginate calls = []"
  using delete_loop_trace [of w b keys 0 tr "(0, 0)"] by (simp add: delete_objects_def)

lemma process_folder_trace:
  "\<exists>calls. snd (process_folder w b p tr) = tr @ Paginate b (folder p) # calls
      \<and> filter is_paginate calls = []"
proof (cases "s3_paginate w tr b (folder p)")
  case (Inl e)
  then show ?thesis by (simp add: process_folder_def list_backup_objects_def)
next
  case (Inr pages)
  let ?tr = "tr @ [Paginate b (folder p)]"
  let ?objs = "concat (map page_objects pages)"
  show ?thesis
  proof (cases "get_objects_to_delete ?objs p (utcnow w ?tr)")
    case (Inl e)
    with Inr show ?thesis by (simp add: process_folder_def list_backup_objects_def)
  next
    case to_del: (Inr to_delete)
    from delete_objects_trace [of w b to_delete ?tr]
    obtain calls where c: "snd (delete_objects w b to_delete ?tr) = ?tr @ calls"
      "filter is_paginate calls = []" by blast
    obtain r t2 where d: "delete_objects w b to_delete ?tr = (r, t2)" by (cases "delete_objects w b to_delete ?tr")
    with c have t2: "t2 = ?tr @ calls" by simp
    have "snd (process_folder w b p tr) = t2"
      using Inr to_del d
      by (cases r) (auto simp: process_folder_def list_backup_objects_def split: prod.splits)
    with t2 c(2) show ?thesis by simp
  qed
qed

lemma process_policies_trace:
  "\<exists>calls. snd (process_policies w b ps [] tr) = tr @ calls
      \<and> filter is_paginate calls = map (\<lambda>p. Paginate b (folder p)) ps"
proof (induction ps arbitrary: tr)
  case Nil
  then show ?case by simp
next
  case (Cons p ps)
  obtain r t1 where pf: "process_folder w b p tr = (r, t1)" by (cases "process_folder w b p tr")
  from process_folder_trace [of w b p tr] pf
  obtain c1 where c1: "t1 = tr @ Paginate b (folder p) # c1" "filter is_paginate c1 = []"
    by auto
  from Cons.IH [of t1]
  obtain c2 where c2: "snd (process_policies w b ps [] t1) = t1 @ c2"
    "filter is_paginate c2 = map (\<lambda>p. Paginate b (folder p)) ps" by blast
  have "snd (process_policies w b (p # ps) [] tr) = snd (process_policies w b ps [] t1)"
    using pf process_policies_error [of w b p tr _ t1 ps] process_policies_ok [of w b p tr _ t1 ps]
    by (cases r) simp_all
  with c1 c2 have "snd (process_policies w b (p # ps) [] tr) = tr @ (Paginate b (folder p) # c1 @ c2)
     \<and> filter is_paginate (Paginate b (folder p) # c1 @ c2) = map (\<lambda>p. Paginate b (folder p)) (p # ps)"
    by simp
  then show ?case by blast
qed

lemma process_policies_folders:
  "map result_folder (fst (process_policies w b ps [] tr)) = map folder ps"
proof (induction ps arbitrary: tr)
  case Nil
  then show ?case by simp
next
  case (Cons p ps)
  obtain r t1 where pf: "process_folder w b p tr = (r, t1)" by (cases "process_folder w b p tr")
  show ?case
  proof (cases r)
    case (Inl e)
    with pf process_policies_error [of w b p tr e t1 ps] Cons.IH [of t1] show ?thesis by simp
  next
    case (Inr res)
    have "result_folder res = folder p"
      using pf Inr
      by (auto simp: process_folder_def split: prod.splits sum.splits)
    with Inr pf process_policies_ok [of w b p tr res t1 ps] Cons.IH [of t1] show ?thesis by simp
  qed
qed

lemma totals_skip_errors:
  "total_deleted rs = sum_list (map get_deleted (filter (\<lambda>r. \<not> is_error_result r) rs))"
  "total_failed rs = sum_list (map get_failed (filter (\<lambda>r. \<not> is_error_result r) rs))"
proof -
  have g: "\<And>r. is_error_result r \<Longrightarrow> get_deleted r = 0 \<and> get_failed r = 0"
    by (case_tac r) simp_all
  show "total_deleted rs = sum_list (map get_deleted (filter (\<lambda>r. \<not> is_error_result r) rs))"
    unfolding total_deleted_def by (induction rs) (auto simp: g)
  show "total_failed rs = sum_list (map get_failed (filter (\<lambda>r. \<not> is_error_result r) rs))"
    unfolding total_failed_def by (induction rs) (auto simp: g)
qed

lemma load_two_folder:
  "load_retention_config example_world two_folder_config []
     = (Inr [\<lparr>folder = PStr ''broken/'', days_to_keep = PInt 30, min_backups_to_keep = PInt 3\<rparr>,
             example_policy 30 2], [])"
  using load_of_read(1) [OF read_two_folder]
  by (simp add: parse_config_def dict_get_def example_policy_def)

lemma broken_folder:
  "process_folder example_world ''test-bucket''
     \<lparr>folder = PStr ''broken/'', days_to_keep = PInt 30, min_backups_to_keep = PInt 3\<rparr> []
   = (Inl (ClientError ''AccessDenied''), [Paginate ''test-bucket'' (PStr ''broken/'')])"
  by (simp add: process_folder_def list_backup_objects_def example_world_def example_paginate_def)

lemma test_listing:
  "list_backup_objects example_world ''test-bucket'' (PStr ''test/'') tr
     = (Inr example_objects, tr @ [Paginate ''test-bucket'' (PStr ''test/'')])"
  by (simp add: list_backup_objects_def example_world_def example_paginate_def page_objects_def
      example_objects_def endswith_slash_def)

lemma test_marked:
  "get_objects_to_delete example_objects (example_policy 30 2) example_now
     = Inr [''backup-4.zip'', ''backup-5.zip'']"
  by (simp add: get_objects_to_delete_def sorted_objects_def example_objects_def
      example_policy_def example_now_def age_days_def timedelta_days_def)

lemma test_deletion:
  "delete_objects example_world ''test-bucket'' [''backup-4.zip'', ''backup-5.zip''] tr
     = (Inr (1, 1), tr @ [DeleteObjectsCall ''test-bucket'' [''backup-4.zip'', ''backup-5.zip'']])"
proof -
  have b: "take batch_size (drop 0 [''backup-4.zip'', ''backup-5.zip''])
      = [''backup-4.zip'', ''backup-5.zip'']"
    by (simp add: batch_size_def)
  have r: "s3_delete_objects example_world tr ''test-bucket''
      (take batch_size (drop 0 [''backup-4.zip'', ''backup-5.zip'']))
      = Inr \<lparr>Deleted = Some [''backup-4.zip''],
             Errors = Some [(''backup-5.zip'', ''AccessDenied'', ''Access Denied'')]\<rparr>"
    unfolding b by (simp add: example_world_def example_delete_objects_def batch_size_def)
  have i: "0 < length [''backup-4.zip'', ''backup-5.zip'']" by simp
  have d: "\<not> 0 + batch_size < length [''backup-4.zip'', ''backup-5.zip'']"
    by (simp add: batch_size_def)
  have "delete_loop example_world ''test-bucket'' [''backup-4.zip'', ''backup-5.zip''] 0 tr (0, 0)
      = delete_loop example_world ''test-bucket'' [''backup-4.zip'', ''backup-5.zip'']
          (0 + batch_size)
          (tr @ [DeleteObjectsCall ''test-bucket''
                   (take batch_size (drop 0 [''backup-4.zip'', ''backup-5.zip'']))])
          (0 + len_opt (Deleted \<lparr>Deleted = Some [''backup-4.zip''],
                 Errors = Some [(''backup-5.zip'', ''AccessDenied'', ''Access Denied'')]\<rparr>),
           0 + len_opt (Errors \<lparr>Deleted = Some [''backup-4.zip''],
                 Errors = Some [(''backup-5.zip'', ''AccessDenied'', ''Access Denied'')]\<rparr>))"
    by (rule delete_loop_response [OF i r])
  also have "\<dots> = (Inr (0 + len_opt (Deleted \<lparr>Deleted = Some [''backup-4.zip''],
                 Errors = Some [(''backup-5.zip'', ''AccessDenied'', ''Access Denied'')]\<rparr>),
           0 + len_opt (Errors \<lparr>Deleted = Some [''backup-4.zip''],
                 Errors = Some [(''backup-5.zip'', ''AccessDenied'', ''Access Denied'')]\<rparr>)),
        tr @ [DeleteObjectsCall ''test-bucket''
                   (take batch_size (drop 0 [''backup-4.zip'', ''backup-5.zip'']))])"
    by (rule delete_loop_done [OF d])
  finally show ?thesis
    unfolding b by (simp add: delete_objects_def len_opt_def)
qed

lemma test_folder:
  "process_folder example_world ''test-bucket'' (example_policy 30 2) tr
     = (Inr (FolderResult (PStr ''test/'') 5 2 1 1),
        tr @ [Paginate ''test-bucket'' (PStr ''test/''),
              DeleteObjectsCall ''test-bucket'' [''backup-4.zip'', ''backup-5.zip'']])"
proof -
  have f: "folder (example_policy 30 2) = PStr ''test/''" by (simp add: example_policy_def)
  have n: "utcnow example_world t = example_now" for t by (simp add: example_world_def)
  have l: "length example_objects = 5" by (simp add: example_objects_def)
  show ?thesis
    unfolding process_folder_def f test_listing
    by (simp add: n test_marked test_deletion l)
qed

text \<open>
  C4. When processing a policy raises, the results hold a \<open>FolderError\<close> with that
  policy's folder and the exception at its position, and the loop goes on with the
  remaining policies from the trace the failure left: each of them gets its result and
  its listing call, in order. The error result adds nothing to \<open>total_deleted\<close> and
  \<open>total_failed\<close>, which are the sums over the results that are not errors.
\<close>

theorem failed_folder_is_recorded_and_rest_processed:
  assumes "process_folder w bucket_name p (snd (process_policies w bucket_name before [] tr))
             = (Inl e, tr1)"
  shows "\<exists>calls.
     process_policies w bucket_name (before @ p # rest) [] tr =
       (fst (process_policies w bucket_name before [] tr)
          @ FolderError (folder p) e # fst (process_policies w bucket_name rest [] tr1),
        tr1 @ calls)
     \<and> filter is_paginate calls = map (\<lambda>q. Paginate bucket_name (folder q)) rest
     \<and> map result_folder (fst (process_policies w bucket_name rest [] tr1)) = map folder rest
     \<and> total_deleted (fst (process_policies w bucket_name (before @ p # rest) [] tr)) =
         total_deleted (fst (process_policies w bucket_name before [] tr))
           + total_deleted (fst (process_policies w bucket_name rest [] tr1))
     \<and> total_failed (fst (process_policies w bucket_name (before @ p # rest) [] tr)) =
         total_failed (fst (process_policies w bucket_name before [] tr))
           + total_failed (fst (process_policies w bucket_name rest [] tr1))
     \<and> total_deleted (fst (process_policies w bucket_name (before @ p # rest) [] tr)) =
         sum_list (map get_deleted (filter (\<lambda>r. \<not> is_error_result r)
           (fst (process_policies w bucket_name (before @ p # rest) [] tr))))
     \<and> total_failed (fst (process_policies w bucket_name (before @ p # rest) [] tr)) =
         sum_list (map get_failed (filter (\<lambda>r. \<not> is_error_result r)
           (fst (process_policies w bucket_name (before @ p # rest) [] tr))))"
proof -
  let ?b = "process_policies w bucket_name before [] tr"
  let ?r = "process_policies w bucket_name rest [] tr1"
  from process_policies_trace [of w bucket_name rest tr1]
  obtain calls where c: "snd ?r = tr1 @ calls"
    "filter is_paginate calls = map (\<lambda>q. Paginate bucket_name (folder q)) rest" by blast
  have "process_policies w bucket_name (before @ p # rest) [] tr =
      (fst ?b @ fst (process_policies w bucket_name (p # rest) [] (snd ?b)),
       snd (process_policies w bucket_name (p # rest) [] (snd ?b)))"
    by (rule process_policies_append)
  also have "process_policies w bucket_name (p # rest) [] (snd ?b) =
      (FolderError (folder p) e # fst ?r, snd ?r)"
    by (rule process_policies_error [OF assms])
  finally have all: "process_policies w bucket_name (before @ p # rest) [] tr =
      (fst ?b @ FolderError (folder p) e # fst ?r, tr1 @ calls)"
    using c(1) by simp
  have td: "total_deleted (fst ?b @ FolderError (folder p) e # fst ?r)
      = total_deleted (fst ?b) + total_deleted (fst ?r)"
    by (simp add: total_deleted_def)
  have tf: "total_failed (fst ?b @ FolderError (folder p) e # fst ?r)
      = total_failed (fst ?b) + total_failed (fst ?r)"
    by (simp add: total_failed_def)
  show ?thesis
    using all c(2) process_policies_folders [of w bucket_name rest tr1] td tf
      totals_skip_errors [of "fst ?b @ FolderError (folder p) e # fst ?r"]
    by (intro exI [of _ calls]) simp
qed

theorem failed_folder_is_recorded_and_rest_processed_witness:
  "lambda_handler example_world (example_env ''test-bucket'' two_folder_config) (PDict []) =
     (\<lparr>statusCode = 200,
       body = CompletedBody ''Backup cleanup completed'' 1 1
                [FolderError (PStr ''broken/'') (ClientError ''AccessDenied''),
                 FolderResult (PStr ''test/'') 5 2 1 1]\<rparr>,
      [Paginate ''test-bucket'' (PStr ''broken/''),
       Paginate ''test-bucket'' (PStr ''test/''),
       DeleteObjectsCall ''test-bucket'' [''backup-4.zip'', ''backup-5.zip'']])"
proof -
  let ?broken = "\<lparr>folder = PStr ''broken/'', days_to_keep = PInt 30, min_backups_to_keep = PInt 3\<rparr>"
  have ne: "''test-bucket'' \<noteq> []" "two_folder_config \<noteq> []"
    by (simp_all add: two_folder_config_def)
  have h: "process_folder example_world ''test-bucket'' ?broken
             (snd (process_policies example_world ''test-bucket'' [] [] []))
           = (Inl (ClientError ''AccessDenied''), [Paginate ''test-bucket'' (PStr ''broken/'')])"
    using broken_folder by simp
  have rest: "process_policies example_world ''test-bucket'' [example_policy 30 2] []
                [Paginate ''test-bucket'' (PStr ''broken/'')]
      = ([FolderResult (PStr ''test/'') 5 2 1 1],
         [Paginate ''test-bucket'' (PStr ''broken/''),
          Paginate ''test-bucket'' (PStr ''test/''),
          DeleteObjectsCall ''test-bucket'' [''backup-4.zip'', ''backup-5.zip'']])"
    by (simp add: test_folder)
  from failed_folder_is_recorded_and_rest_processed [OF h, of "[example_policy 30 2]"]
  obtain calls where
    "process_policies example_world ''test-bucket'' ([] @ ?broken # [example_policy 30 2]) [] [] =
       (fst (process_policies example_world ''test-bucket'' [] [] [])
          @ FolderError (folder ?broken) (ClientError ''AccessDenied'')
          # fst (process_policies example_world ''test-bucket'' [example_policy 30 2] []
                  [Paginate ''test-bucket'' (PStr ''broken/'')]),
        [Paginate ''test-bucket'' (PStr ''broken/'')] @ calls)"
    by blast
  moreover have "fst (process_policies example_world ''test-bucket'' [] [] []) = []" by simp
  ultimately have pp: "fst (process_policies example_world ''test-bucket'' [?broken, example_policy 30 2] [] [])
      = [FolderError (PStr ''broken/'') (ClientError ''AccessDenied''),
         FolderResult (PStr ''test/'') 5 2 1 1]"
    by (simp add: rest del: process_policies.simps)
  have tr: "snd (process_policies example_world ''test-bucket'' [?broken, example_policy 30 2] [] [])
      = [Paginate ''test-bucket'' (PStr ''broken/''),
         Paginate ''test-bucket'' (PStr ''test/''),
         DeleteObjectsCall ''test-bucket'' [''backup-4.zip'', ''backup-5.zip'']]"
    using process_policies_error [OF broken_folder, of "[example_policy 30 2]"] rest by simp
  have full: "process_policies example_world ''test-bucket'' [?broken, example_policy 30 2] [] []
      = ([FolderError (PStr ''broken/'') (ClientError ''AccessDenied''),
          FolderResult (PStr ''test/'') 5 2 1 1],
         [Paginate ''test-bucket'' (PStr ''broken/''),
          Paginate ''test-bucket'' (PStr ''test/''),
          DeleteObjectsCall ''test-bucket'' [''backup-4.zip'', ''backup-5.zip'']])"
    by (rule prod_eqI) (simp_all only: pp tr fst_conv snd_conv)
  have nonempty: "[?broken, example_policy 30 2] \<noteq> []" by simp
  have "run_policies example_world ''test-bucket'' two_folder_config =
     (\<lparr>statusCode = 200,
       body = CompletedBody ''Backup cleanup completed''
                (total_deleted [FolderError (PStr ''broken/'') (ClientError ''AccessDenied''),
                                FolderResult (PStr ''test/'') 5 2 1 1])
                (total_failed [FolderError (PStr ''broken/'') (ClientError ''AccessDenied''),
                               FolderResult (PStr ''test/'') 5 2 1 1])
                [FolderError (PStr ''broken/'') (ClientError ''AccessDenied''),
                 FolderResult (PStr ''test/'') 5 2 1 1]\<rparr>,
      [Paginate ''test-bucket'' (PStr ''broken/''),
       Paginate ''test-bucket'' (PStr ''test/''),
       DeleteObjectsCall ''test-bucket'' [''backup-4.zip'', ''backup-5.zip'']])"
    by (rule run_policies_completed [OF load_two_folder nonempty full])
  then show ?thesis
    using handler_runs [OF example_env_simps(1) ne(1) example_env_simps(2) ne(2),
        of example_world "PDict []"]
    by (simp add: total_deleted_def total_failed_def)
qed

end
